theory Spec2Isabelle
  imports Main
begin

section \<open>The texture atlas allocator of terminal_renderer/Atlas.cpp\<close>

text \<open>
  A shallow embedding of \<^verbatim>\<open>TextureAtlasAllocator\<close>. The C++ members become the fields
  of a state record, every member function takes the state and returns the new one, and
  the calls into the \<^verbatim>\<open>AtlasBackend\<close> are appended to a trace of events kept in
  the state. The C++ \<^verbatim>\<open>int\<close> is modelled as \<open>int\<close>: signed overflow is undefined
  behaviour in C++, so the model describes the executions on which no addition overflows.
\<close>

subsection \<open>Data\<close>

type_synonym Format = nat
type_synonym Buffer = "nat list"

text \<open>
  The allocator hands out pointers into its list of records, and \<^verbatim>\<open>release\<close> finds a
  record by comparing addresses. An address is modelled as a natural number.
\<close>

type_synonym ref = nat

text \<open>\<^verbatim>\<open>Offset{i, x, y, z}\<close>: instance, x, y and layer.\<close>

record Offset =
  off_i :: int
  off_x :: int
  off_y :: int
  off_z :: int

text \<open>
  \<^verbatim>\<open>TextureInfo\<close>, in the order \<^verbatim>\<open>appendTextureInfo\<close> fills it. The four normalised
  coordinates (\<^verbatim>\<open>float\<close> quotients of the offset and size by the page size) are left
  out: they are floating point, and nothing below reads them.
\<close>

record TextureInfo =
  atlas :: int
  atlasName :: string
  ti_x :: int
  ti_y :: int
  ti_z :: int
  ti_width :: int
  ti_height :: int
  targetWidth :: int
  targetHeight :: int
  user :: int

text \<open>
  The members set once by the constructor. \<^verbatim>\<open>HorizontalGap\<close> and \<^verbatim>\<open>VerticalGap\<close>
  are constants of the class declared in Atlas.h; they are taken as parameters here.
\<close>

record config =
  instanceBaseId :: int
  maxInstances :: int
  depth :: int
  width :: int
  height :: int
  atlas_name :: string
  HorizontalGap :: int
  VerticalGap :: int

datatype event =
    CreateAtlas int
  | DestroyAtlas int
  | UploadTexture ref TextureInfo Buffer Format

text \<open>
  The mutable members. \<open>discarded\<close> is the \<^verbatim>\<open>std::map\<close> from a size to the vector of
  freed offsets of that size (the back of the vector is the end of the list).
  \<open>textureInfos\<close> is the list of live records, each with its address; \<open>nextRef\<close> is
  the address the next record gets (addresses are not reused in the model). \<open>events\<close>
  is the trace of backend calls, oldest first.
\<close>

record state =
  currentInstanceId :: int
  currentZ :: int
  currentX :: int
  currentY :: int
  maxTextureHeightInCurrentRow :: int
  discarded :: "(int \<times> int) \<rightharpoonup> Offset list"
  textureInfos :: "(ref \<times> TextureInfo) list"
  nextRef :: ref
  events :: "event list"

subsection \<open>Operations\<close>

definition emit :: "event \<Rightarrow> state \<Rightarrow> state" where
  "emit e s = s\<lparr>events := events s @ [e]\<rparr>"

text \<open>
  Modelled from the spec: \<^verbatim>\<open>notifyCreateAtlas\<close> is declared in Atlas.h, which is not
  among the sources. The spec (4.1, 4.2 step 4, 6) has it ask the backend to create the
  page of the current instance id.
\<close>

definition notifyCreateAtlas :: "state \<Rightarrow> state" where
  "notifyCreateAtlas s = emit (CreateAtlas (currentInstanceId s)) s"

text \<open>
  Modelled from the spec: \<^verbatim>\<open>offset()\<close> is declared in Atlas.h, which is not among the
  sources. The spec (4.2 step 1) places at (currentX, currentY, currentLayer) in the
  current instance.
\<close>

definition offset :: "state \<Rightarrow> Offset" where
  "offset s = \<lparr>off_i = currentInstanceId s, off_x = currentX s,
                off_y = currentY s, off_z = currentZ s\<rparr>"

text \<open>The constructor: the members' initial values, then \<^verbatim>\<open>notifyCreateAtlas()\<close>.\<close>

definition construct :: "config \<Rightarrow> state" where
  "construct c = notifyCreateAtlas
     \<lparr>currentInstanceId = instanceBaseId c, currentZ = 0, currentX = 0, currentY = 0,
      maxTextureHeightInCurrentRow = 0, discarded = Map.empty, textureInfos = [],
      nextRef = 0, events = []\<rparr>"

text \<open>The destructor: one \<^verbatim>\<open>destroyAtlas\<close> for every id from the base to the current one.\<close>

definition destruct :: "config \<Rightarrow> state \<Rightarrow> state" where
  "destruct c s =
     s\<lparr>events := events s @ map DestroyAtlas [instanceBaseId c .. currentInstanceId s]\<rparr>"

definition clear :: "config \<Rightarrow> state \<Rightarrow> state" where
  "clear c s = s\<lparr>currentInstanceId := instanceBaseId c, currentZ := 0, currentX := 0,
                 currentY := 0, maxTextureHeightInCurrentRow := 0, discarded := Map.empty\<rparr>"

text \<open>
  The last three statements of \<^verbatim>\<open>getOffsetAndAdvance\<close>, which every path that does not
  return \<^verbatim>\<open>nullopt\<close> falls through to.
\<close>

definition place :: "config \<Rightarrow> int \<Rightarrow> int \<Rightarrow> state \<Rightarrow> Offset option \<times> state" where
  "place c w h s =
     (Some (offset s),
      s\<lparr>currentX := currentX s + w + HorizontalGap c,
        maxTextureHeightInCurrentRow := max (maxTextureHeightInCurrentRow s) h\<rparr>)"

definition getOffsetAndAdvance ::
  "config \<Rightarrow> int \<Rightarrow> int \<Rightarrow> state \<Rightarrow> Offset option \<times> state" where
  "getOffsetAndAdvance c w h s =
     (if \<not> (currentX s + HorizontalGap c + w < width c) then
        let s1 = s\<lparr>currentX := 0,
                   currentY := currentY s + (maxTextureHeightInCurrentRow s + VerticalGap c)\<rparr>
        in if \<not> (currentY s1 + h < height c) then
             let s2 = s1\<lparr>currentY := 0, maxTextureHeightInCurrentRow := 0,
                         currentZ := currentZ s1 + 1\<rparr>
             in if \<not> (currentZ s2 < depth c) then
                  let s3 = s2\<lparr>currentZ := 0\<rparr>
                  in if \<not> (currentInstanceId s3 + 1 < instanceBaseId c + maxInstances c) then
                       (None, s3\<lparr>currentX := width c, currentY := height c,
                                  currentZ := depth c\<rparr>)
                     else place c w h
                            (notifyCreateAtlas
                               (s3\<lparr>currentInstanceId := currentInstanceId s3 + 1\<rparr>))
                else place c w h s2
           else place c w h s1
      else place c w h s)"

text \<open>
  \<^verbatim>\<open>appendTextureInfo\<close>: the record is stored at a fresh address, which is returned
  with it.
\<close>

definition newTextureInfo ::
  "config \<Rightarrow> int \<Rightarrow> int \<Rightarrow> int \<Rightarrow> int \<Rightarrow> Offset \<Rightarrow> int \<Rightarrow> TextureInfo" where
  "newTextureInfo c w h tw th off u =
     \<lparr>atlas = off_i off, atlasName = atlas_name c, ti_x = off_x off, ti_y = off_y off,
      ti_z = off_z off, ti_width = w, ti_height = h, targetWidth = tw, targetHeight = th,
      user = u\<rparr>"

definition appendTextureInfo ::
  "config \<Rightarrow> int \<Rightarrow> int \<Rightarrow> int \<Rightarrow> int \<Rightarrow> Offset \<Rightarrow> int \<Rightarrow> state
     \<Rightarrow> (ref \<times> TextureInfo) \<times> state" where
  "appendTextureInfo c w h tw th off u s =
     (let p = (nextRef s, newTextureInfo c w h tw th off u)
      in (p, s\<lparr>textureInfos := textureInfos s @ [p], nextRef := Suc (nextRef s)\<rparr>))"

definition uploadTexture :: "ref \<times> TextureInfo \<Rightarrow> Buffer \<Rightarrow> Format \<Rightarrow> state \<Rightarrow> state" where
  "uploadTexture p buf fmt s = emit (UploadTexture (fst p) (snd p) buf fmt) s"

text \<open>
  The first block of \<^verbatim>\<open>insert\<close>: the vector found for the size, when there is one and
  it is not empty.
\<close>

definition discardsForGivenSize :: "state \<Rightarrow> int \<Rightarrow> int \<Rightarrow> Offset list option" where
  "discardsForGivenSize s w h =
     (case discarded s (w, h) of
        None \<Rightarrow> None
      | Some ds \<Rightarrow> if ds = [] then None else Some ds)"

definition insert_texture ::
  "config \<Rightarrow> int \<Rightarrow> int \<Rightarrow> int \<Rightarrow> int \<Rightarrow> Format \<Rightarrow> Buffer \<Rightarrow> int \<Rightarrow> state
     \<Rightarrow> (ref \<times> TextureInfo) option \<times> state" where
  "insert_texture c w h tw th fmt buf u s =
     (case discardsForGivenSize s w h of
        Some ds \<Rightarrow>
          let (p, s1) = appendTextureInfo c w h tw th (last ds) u s;
              s2 = s1\<lparr>discarded :=
                        (if butlast ds = [] then (discarded s1)((w, h) := None)
                         else (discarded s1)((w, h) \<mapsto> butlast ds))\<rparr>
          in (Some p, uploadTexture p buf fmt s2)
      | None \<Rightarrow>
          if h > height c \<or> w > width c then (None, s)
          else
            (case getOffsetAndAdvance c w h s of
               (None, s1) \<Rightarrow> (None, s1)
             | (Some targetOffset, s1) \<Rightarrow>
                 let (p, s2) = appendTextureInfo c w h tw th targetOffset u s1
                 in (Some p, uploadTexture p buf fmt s2)))"

text \<open>
  \<^verbatim>\<open>release\<close>: \<^verbatim>\<open>find_if\<close> returns the first record at the given address, its offset
  is pushed on the vector of its size (\<^verbatim>\<open>discarded_[...]\<close> creates an empty vector
  when the size has none), and that record is erased.
\<close>

fun erase :: "ref \<Rightarrow> (ref \<times> TextureInfo) list \<Rightarrow> (ref \<times> TextureInfo) list" where
  "erase a [] = []"
| "erase a (p # ps) = (if fst p = a then ps else p # erase a ps)"

definition release :: "ref \<Rightarrow> state \<Rightarrow> state" where
  "release a s =
     (case map_of (textureInfos s) a of
        None \<Rightarrow> s
      | Some info \<Rightarrow>
          let key = (ti_width info, ti_height info);
              ds = (case discarded s key of None \<Rightarrow> [] | Some v \<Rightarrow> v)
          in s\<lparr>discarded := (discarded s)(key \<mapsto>
                  ds @ [\<lparr>off_i = atlas info, off_x = ti_x info, off_y = ti_y info,
                         off_z = ti_z info\<rparr>]),
               textureInfos := erase a (textureInfos s)\<rparr>)"

subsection \<open>Runs of the allocator\<close>

datatype call =
    Insert int int int int Format Buffer int
  | Release ref
  | Clear

fun step :: "config \<Rightarrow> call \<Rightarrow> state \<Rightarrow> state" where
  "step c (Insert w h tw th fmt buf u) s = snd (insert_texture c w h tw th fmt buf u s)"
| "step c (Release a) s = release a s"
| "step c Clear s = clear c s"

text \<open>
  A sequence of calls, run in order. The states the allocator can be in are the states
  \<open>run c ks (construct c)\<close>: constructed, then any calls.
\<close>

fun run :: "config \<Rightarrow> call list \<Rightarrow> state \<Rightarrow> state" where
  "run c [] s = s"
| "run c (k # ks) s = run c ks (step c k s)"

subsection \<open>The conditions the packing advance tests\<close>

text \<open>
  The four tests of \<^verbatim>\<open>getOffsetAndAdvance\<close>, each on the state the call starts from:
  the request fits the current row; it fits the row below; there is a layer after the
  current one; there is an instance after the current one.
\<close>

definition row_fits :: "config \<Rightarrow> int \<Rightarrow> state \<Rightarrow> bool" where
  "row_fits c w s \<longleftrightarrow> currentX s + HorizontalGap c + w < width c"

definition next_row_fits :: "config \<Rightarrow> int \<Rightarrow> state \<Rightarrow> bool" where
  "next_row_fits c h s \<longleftrightarrow>
     currentY s + (maxTextureHeightInCurrentRow s + VerticalGap c) + h < height c"

definition next_layer_fits :: "config \<Rightarrow> state \<Rightarrow> bool" where
  "next_layer_fits c s \<longleftrightarrow> currentZ s + 1 < depth c"

definition next_instance_fits :: "config \<Rightarrow> state \<Rightarrow> bool" where
  "next_instance_fits c s \<longleftrightarrow> currentInstanceId s + 1 < instanceBaseId c + maxInstances c"

text \<open>The cursor after \<^verbatim>\<open>getOffsetAndAdvance\<close> has returned \<^verbatim>\<open>nullopt\<close>.\<close>

definition pin :: "config \<Rightarrow> state \<Rightarrow> state" where
  "pin c s = s\<lparr>currentX := width c, currentY := height c,
               maxTextureHeightInCurrentRow := 0, currentZ := depth c\<rparr>"

subsection \<open>A small page for the examples\<close>

text \<open>One instance of one layer of 10 by 10 pixels, without gaps.\<close>

definition page10 :: config where
  "page10 = \<lparr>instanceBaseId = 0, maxInstances = 1, depth = 1, width = 10, height = 10,
              atlas_name = ''atlas'', HorizontalGap = 0, VerticalGap = 0\<rparr>"

text \<open>An insert whose target size is the source size, with an empty buffer.\<close>

definition ins :: "config \<Rightarrow> int \<Rightarrow> int \<Rightarrow> state \<Rightarrow> (ref \<times> TextureInfo) option \<times> state" where
  "ins c w h s = insert_texture c w h w h 0 [] 0 s"

subsection \<open>What the claims speak of\<close>

text \<open>The instance ids the backend was asked to create and to destroy, in order.\<close>

fun created :: "event list \<Rightarrow> int list" where
  "created [] = []"
| "created (CreateAtlas i # es) = i # created es"
| "created (e # es) = created es"

fun destroyed :: "event list \<Rightarrow> int list" where
  "destroyed [] = []"
| "destroyed (DestroyAtlas i # es) = i # destroyed es"
| "destroyed (e # es) = destroyed es"

text \<open>
  Every live record and every size with a free slot is at most as large as the page.
\<close>

definition page_sized :: "config \<Rightarrow> state \<Rightarrow> bool" where
  "page_sized c s \<longleftrightarrow>
     (\<forall>p \<in> set (textureInfos s). ti_width (snd p) \<le> width c \<and> ti_height (snd p) \<le> height c) \<and>
     (\<forall>w h. discardsForGivenSize s w h \<noteq> None \<longrightarrow> w \<le> width c \<and> h \<le> height c)"

text \<open>
  The instance ids the configuration allows, and the states in which the cursor, the live
  records and the freed offsets all name such an id.
\<close>

definition instance_ok :: "config \<Rightarrow> int \<Rightarrow> bool" where
  "instance_ok c i \<longleftrightarrow> instanceBaseId c \<le> i \<and> i < instanceBaseId c + maxInstances c"

definition instances_in_range :: "config \<Rightarrow> state \<Rightarrow> bool" where
  "instances_in_range c s \<longleftrightarrow>
     instance_ok c (currentInstanceId s) \<and>
     (\<forall>p \<in> set (textureInfos s). instance_ok c (atlas (snd p))) \<and>
     (\<forall>k ds. discarded s k = Some ds \<longrightarrow> (\<forall>off \<in> set ds. instance_ok c (off_i off)))"

text \<open>
  Two facts about the store: every live record has an address below the next one handed
  out, and no size is mapped to an empty vector of freed offsets.
\<close>

definition refs_fresh :: "state \<Rightarrow> bool" where
  "refs_fresh s \<longleftrightarrow> (\<forall>p \<in> set (textureInfos s). fst p < nextRef s)"

definition no_empty_vector :: "state \<Rightarrow> bool" where
  "no_empty_vector s \<longleftrightarrow> (\<forall>k. discarded s k \<noteq> Some [])"

text \<open>
  The cursor is pinned when it holds the values \<^verbatim>\<open>getOffsetAndAdvance\<close> leaves
  before returning \<^verbatim>\<open>nullopt\<close>. The calls that may follow an exhaustion in claim
  C6: inserts of images of non-negative size, and releases.
\<close>

definition pinned :: "config \<Rightarrow> state \<Rightarrow> bool" where
  "pinned c s \<longleftrightarrow>
     currentX s = width c \<and> currentY s = height c \<and> currentZ s = depth c \<and>
     maxTextureHeightInCurrentRow s = 0"

fun insert_or_release :: "call \<Rightarrow> bool" where
  "insert_or_release (Insert w h tw th fmt buf u) \<longleftrightarrow> 0 \<le> w \<and> 0 \<le> h"
| "insert_or_release (Release a) \<longleftrightarrow> True"
| "insert_or_release Clear \<longleftrightarrow> False"

text \<open>
  Two placements overlap when they lie in the same instance and layer and their
  rectangles (half open: x up to x + width, y up to y + height) have a pixel in common.
  \<open>placements\<close> collects the records that the successful inserts of a sequence of calls
  return. A record is passed by the cursor when it lies in an earlier instance or layer,
  or in the current layer above the current row or left of the cursor, and not below the
  bottom of the tallest image the layer has seen. \<open>packed\<close> is the invariant of a run of
  inserts: the free-list is empty, the cursor is in a layer of the page or pinned, and it
  has passed every record placed so far.
\<close>

definition overlaps :: "TextureInfo \<Rightarrow> TextureInfo \<Rightarrow> bool" where
  "overlaps a b \<longleftrightarrow>
     atlas a = atlas b \<and> ti_z a = ti_z b \<and>
     max (ti_x a) (ti_x b) < min (ti_x a + ti_width a) (ti_x b + ti_width b) \<and>
     max (ti_y a) (ti_y b) < min (ti_y a + ti_height a) (ti_y b + ti_height b)"

fun pairwise_disjoint :: "TextureInfo list \<Rightarrow> bool" where
  "pairwise_disjoint [] \<longleftrightarrow> True"
| "pairwise_disjoint (r # rs) \<longleftrightarrow> (\<forall>q \<in> set rs. \<not> overlaps r q) \<and> pairwise_disjoint rs"

fun nonneg_insert :: "call \<Rightarrow> bool" where
  "nonneg_insert (Insert w h tw th fmt buf u) \<longleftrightarrow> 0 \<le> w \<and> 0 \<le> h"
| "nonneg_insert (Release a) \<longleftrightarrow> False"
| "nonneg_insert Clear \<longleftrightarrow> False"

fun placements :: "config \<Rightarrow> call list \<Rightarrow> state \<Rightarrow> TextureInfo list" where
  "placements c [] s = []"
| "placements c (Insert w h tw th fmt buf u # ks) s =
     (case insert_texture c w h tw th fmt buf u s of
        (None, s') \<Rightarrow> placements c ks s'
      | (Some p, s') \<Rightarrow> snd p # placements c ks s')"
| "placements c (k # ks) s = placements c ks (step c k s)"

definition passed :: "state \<Rightarrow> TextureInfo \<Rightarrow> bool" where
  "passed s r \<longleftrightarrow>
     atlas r < currentInstanceId s \<or>
     atlas r = currentInstanceId s \<and>
       (ti_z r < currentZ s \<or>
        ti_z r = currentZ s \<and>
          ti_y r + ti_height r \<le> currentY s + maxTextureHeightInCurrentRow s \<and>
          (ti_y r + ti_height r \<le> currentY s \<or> ti_x r + ti_width r \<le> currentX s))"

definition packed :: "config \<Rightarrow> state \<Rightarrow> TextureInfo set \<Rightarrow> bool" where
  "packed c s P \<longleftrightarrow>
     discarded s = Map.empty \<and> 0 \<le> maxTextureHeightInCurrentRow s \<and>
     (currentZ s < depth c \<or> pinned c s \<and> \<not> next_instance_fits c s) \<and>
     (\<forall>r \<in> P. passed s r \<and> ti_z r < depth c)"

text \<open>
  The height of the tallest live record in a layer of an instance (0 when the layer holds
  none), and that height for the layer the cursor is in. \<open>tracked\<close> adds to the invariant
  of a run of inserts that the tracked row height is the height of the tallest record in
  the cursor's layer.
\<close>

fun tallest :: "int \<Rightarrow> int \<Rightarrow> (ref \<times> TextureInfo) list \<Rightarrow> int" where
  "tallest i z [] = 0"
| "tallest i z (p # ps) =
     (if atlas (snd p) = i \<and> ti_z (snd p) = z then max (ti_height (snd p)) (tallest i z ps)
      else tallest i z ps)"

definition tallest_in_layer :: "state \<Rightarrow> int" where
  "tallest_in_layer s = tallest (currentInstanceId s) (currentZ s) (textureInfos s)"

definition tracked :: "config \<Rightarrow> state \<Rightarrow> bool" where
  "tracked c s \<longleftrightarrow>
     packed c s (snd ` set (textureInfos s)) \<and>
     maxTextureHeightInCurrentRow s = tallest_in_layer s"

text \<open>The calls of a run in which \<^verbatim>\<open>clear()\<close> is never called.\<close>

fun no_clear :: "call \<Rightarrow> bool" where
  "no_clear Clear \<longleftrightarrow> False"
| "no_clear k \<longleftrightarrow> True"

section \<open>Properties\<close>

subsection \<open>Runs\<close>

lemma run_append: "run c (ks @ ks') s = run c ks' (run c ks s)"
  by (induction ks arbitrary: s) simp_all

lemma run_snoc: "run c (ks @ [k]) s = step c k (run c ks s)"
  by (simp add: run_append)

text \<open>
  A property of the constructed state that every call preserves holds in every state the
  allocator can be in.
\<close>

lemma run_invariant:
  assumes "P (construct c)" and "\<And>s k. P s \<Longrightarrow> P (step c k s)"
  shows "P (run c ks (construct c))"
proof -
  have "P s \<Longrightarrow> P (run c ks s)" for s
    by (induction ks arbitrary: s) (simp_all add: assms(2))
  from this [OF assms(1)] show ?thesis .
qed

subsection \<open>The paths of the packing advance\<close>

lemma place_simps [simp]:
  "fst (place c w h s) = Some (offset s)"
  "currentX (snd (place c w h s)) = currentX s + w + HorizontalGap c"
  "currentY (snd (place c w h s)) = currentY s"
  "currentZ (snd (place c w h s)) = currentZ s"
  "currentInstanceId (snd (place c w h s)) = currentInstanceId s"
  "maxTextureHeightInCurrentRow (snd (place c w h s)) = max (maxTextureHeightInCurrentRow s) h"
  "discarded (snd (place c w h s)) = discarded s"
  "textureInfos (snd (place c w h s)) = textureInfos s"
  "nextRef (snd (place c w h s)) = nextRef s"
  "events (snd (place c w h s)) = events s"
  by (simp_all add: place_def)

lemma goa_same_row:
  "row_fits c w s \<Longrightarrow> getOffsetAndAdvance c w h s = place c w h s"
  by (simp add: getOffsetAndAdvance_def row_fits_def)

lemma goa_next_row:
  "\<not> row_fits c w s \<Longrightarrow> next_row_fits c h s \<Longrightarrow>
   getOffsetAndAdvance c w h s =
     place c w h (s\<lparr>currentX := 0,
        currentY := currentY s + (maxTextureHeightInCurrentRow s + VerticalGap c)\<rparr>)"
  by (simp add: getOffsetAndAdvance_def row_fits_def next_row_fits_def Let_def)

lemma goa_next_layer:
  "\<not> row_fits c w s \<Longrightarrow> \<not> next_row_fits c h s \<Longrightarrow> next_layer_fits c s \<Longrightarrow>
   getOffsetAndAdvance c w h s =
     place c w h (s\<lparr>currentX := 0, currentY := 0, maxTextureHeightInCurrentRow := 0,
        currentZ := currentZ s + 1\<rparr>)"
  by (simp add: getOffsetAndAdvance_def row_fits_def next_row_fits_def next_layer_fits_def
      Let_def)

lemma goa_next_instance:
  "\<not> row_fits c w s \<Longrightarrow> \<not> next_row_fits c h s \<Longrightarrow> \<not> next_layer_fits c s \<Longrightarrow>
   next_instance_fits c s \<Longrightarrow>
   getOffsetAndAdvance c w h s =
     place c w h (notifyCreateAtlas (s\<lparr>currentX := 0, currentY := 0,
        maxTextureHeightInCurrentRow := 0, currentZ := 0,
        currentInstanceId := currentInstanceId s + 1\<rparr>))"
  by (simp add: getOffsetAndAdvance_def row_fits_def next_row_fits_def next_layer_fits_def
      next_instance_fits_def Let_def)

lemma goa_full:
  "\<not> row_fits c w s \<Longrightarrow> \<not> next_row_fits c h s \<Longrightarrow> \<not> next_layer_fits c s \<Longrightarrow>
   \<not> next_instance_fits c s \<Longrightarrow> getOffsetAndAdvance c w h s = (None, pin c s)"
  by (simp add: getOffsetAndAdvance_def row_fits_def next_row_fits_def next_layer_fits_def
      next_instance_fits_def pin_def Let_def)

lemma goa_cases [consumes 0, case_names same_row next_row next_layer next_instance full]:
  assumes "row_fits c w s \<Longrightarrow> P"
    and "\<not> row_fits c w s \<Longrightarrow> next_row_fits c h s \<Longrightarrow> P"
    and "\<not> row_fits c w s \<Longrightarrow> \<not> next_row_fits c h s \<Longrightarrow> next_layer_fits c s \<Longrightarrow> P"
    and "\<not> row_fits c w s \<Longrightarrow> \<not> next_row_fits c h s \<Longrightarrow> \<not> next_layer_fits c s \<Longrightarrow>
         next_instance_fits c s \<Longrightarrow> P"
    and "\<not> row_fits c w s \<Longrightarrow> \<not> next_row_fits c h s \<Longrightarrow> \<not> next_layer_fits c s \<Longrightarrow>
         \<not> next_instance_fits c s \<Longrightarrow> P"
  shows P
  using assms by blast

lemma goa_None_iff:
  "fst (getOffsetAndAdvance c w h s) = None \<longleftrightarrow>
     \<not> row_fits c w s \<and> \<not> next_row_fits c h s \<and> \<not> next_layer_fits c s \<and>
     \<not> next_instance_fits c s"
  by (rule goa_cases [where c=c and w=w and h=h and s=s])
     (simp_all add: goa_same_row goa_next_row goa_next_layer goa_next_instance goa_full)

lemma goa_None:
  "getOffsetAndAdvance c w h s = (None, s') \<Longrightarrow> s' = pin c s"
  by (rule goa_cases [where c=c and w=w and h=h and s=s])
     (auto simp add: goa_same_row goa_next_row goa_next_layer goa_next_instance goa_full place_def)

lemma goa_frame [simp]:
  "discarded (snd (getOffsetAndAdvance c w h s)) = discarded s"
  "textureInfos (snd (getOffsetAndAdvance c w h s)) = textureInfos s"
  "nextRef (snd (getOffsetAndAdvance c w h s)) = nextRef s"
  by (rule goa_cases [where c=c and w=w and h=h and s=s];
      simp add: goa_same_row goa_next_row goa_next_layer goa_next_instance goa_full pin_def
        notifyCreateAtlas_def emit_def)+

subsection \<open>The paths of insert\<close>

lemma insert_reuse:
  "discardsForGivenSize s w h = Some ds \<Longrightarrow>
   insert_texture c w h tw th fmt buf u s =
     (Some (nextRef s, newTextureInfo c w h tw th (last ds) u),
      s\<lparr>textureInfos := textureInfos s @ [(nextRef s, newTextureInfo c w h tw th (last ds) u)],
        nextRef := Suc (nextRef s),
        discarded := (if butlast ds = [] then (discarded s)((w, h) := None)
                      else (discarded s)((w, h) \<mapsto> butlast ds)),
        events := events s @
          [UploadTexture (nextRef s) (newTextureInfo c w h tw th (last ds) u) buf fmt]\<rparr>)"
  by (simp add: insert_texture_def appendTextureInfo_def uploadTexture_def emit_def Let_def)

lemma insert_oversize:
  "discardsForGivenSize s w h = None \<Longrightarrow> h > height c \<or> w > width c \<Longrightarrow>
   insert_texture c w h tw th fmt buf u s = (None, s)"
  by (simp add: insert_texture_def)

lemma insert_full:
  "discardsForGivenSize s w h = None \<Longrightarrow> \<not> (h > height c \<or> w > width c) \<Longrightarrow>
   fst (getOffsetAndAdvance c w h s) = None \<Longrightarrow>
   insert_texture c w h tw th fmt buf u s = (None, pin c s)"
  by (cases "getOffsetAndAdvance c w h s") (auto simp add: insert_texture_def dest: goa_None)

lemma insert_advance:
  "discardsForGivenSize s w h = None \<Longrightarrow> \<not> (h > height c \<or> w > width c) \<Longrightarrow>
   getOffsetAndAdvance c w h s = (Some off, s1) \<Longrightarrow>
   insert_texture c w h tw th fmt buf u s =
     (Some (nextRef s, newTextureInfo c w h tw th off u),
      s1\<lparr>textureInfos := textureInfos s @ [(nextRef s, newTextureInfo c w h tw th off u)],
         nextRef := Suc (nextRef s),
         events := events s1 @
           [UploadTexture (nextRef s) (newTextureInfo c w h tw th off u) buf fmt]\<rparr>)"
  using goa_frame [of c w h s]
  by (simp add: insert_texture_def appendTextureInfo_def uploadTexture_def emit_def Let_def)

subsection \<open>Concrete runs\<close>

lemmas run_defs = page10_def ins_def insert_texture_def discardsForGivenSize_def
  getOffsetAndAdvance_def place_def appendTextureInfo_def newTextureInfo_def uploadTexture_def
  emit_def notifyCreateAtlas_def construct_def offset_def Let_def release_def clear_def
  destruct_def

subsection \<open>What an insert does to the backend and to the state\<close>

text \<open>
  Whatever the gaps are (as long as they are not negative): on a single page of a single
  layer, an insert of an image as large as the page into the fresh allocator fails, and
  leaves the cursor pinned.
\<close>

lemma exhausted_insert_pins_any_gap:
  assumes "0 \<le> HorizontalGap c" and "0 \<le> VerticalGap c"
    and "depth c = 1" and "maxInstances c = 1"
  shows "insert_texture c (width c) (height c) tw th fmt buf u (construct c) =
         (None, pin c (construct c))"
proof -
  let ?s = "construct c"
  have s: "currentX ?s = 0" "currentY ?s = 0" "currentZ ?s = 0"
    "maxTextureHeightInCurrentRow ?s = 0" "currentInstanceId ?s = instanceBaseId c"
    "discarded ?s = Map.empty"
    by (simp_all add: construct_def notifyCreateAtlas_def emit_def)
  from assms s have "\<not> row_fits c (width c) ?s" "\<not> next_row_fits c (height c) ?s"
    "\<not> next_layer_fits c ?s" "\<not> next_instance_fits c ?s"
    by (simp_all add: row_fits_def next_row_fits_def next_layer_fits_def
        next_instance_fits_def)
  then have "getOffsetAndAdvance c (width c) (height c) ?s = (None, pin c ?s)"
    by (rule goa_full)
  moreover from s have "discardsForGivenSize ?s (width c) (height c) = None"
    by (simp add: discardsForGivenSize_def)
  ultimately show ?thesis by (simp add: insert_full)
qed

text \<open>
  Claim C9, as the spec states it: every insert either uploads or fails without mutating
  the packing cursor or the free-list, so that a failing insert leaves the cursor as it
  was. The code does not: on the empty 10 by 10 page a 10 by 10 request passes the
  oversize test, fits no row (the tests are strict), finds no further layer or instance,
  and \<^verbatim>\<open>getOffsetAndAdvance\<close> sets the cursor to (width, height, depth) before it
  returns \<^verbatim>\<open>nullopt\<close>. The insert fails and the cursor's x has moved from 0 to 10.
\<close>

theorem insert_failure_moves_cursor:
  "fst (ins page10 10 10 (construct page10)) = None \<and>
   currentX (construct page10) = 0 \<and>
   currentX (snd (ins page10 10 10 (construct page10))) = 10"
  by (simp add: run_defs)

text \<open>
  Claim C9, amended to what the code does. An insert that succeeds issues exactly one
  upload, of the record it returns, preceded by at most one \<^verbatim>\<open>createAtlas\<close> (of the
  instance after the current one). An insert that fails issues no backend call and
  leaves the free-list, the live records and the current instance id as they were;
  it leaves the whole state untouched when the request is larger than the page, and
  otherwise (the atlas is exhausted) sets the cursor to x = width, y = height,
  layer = depth and the tracked row height to 0.
\<close>

theorem insert_uploads_or_fails:
  "case insert_texture c w h tw th fmt buf u s of
     (Some p, s') \<Rightarrow>
        events s' = events s @ [UploadTexture (fst p) (snd p) buf fmt] \<or>
        events s' = events s @ [CreateAtlas (currentInstanceId s + 1),
                                UploadTexture (fst p) (snd p) buf fmt]
   | (None, s') \<Rightarrow>
        s' = (if h > height c \<or> w > width c then s else pin c s)"
proof (cases "discardsForGivenSize s w h")
  case (Some ds)
  then show ?thesis by (simp add: insert_reuse)
next
  case None
  show ?thesis
  proof (cases "h > height c \<or> w > width c")
    case True
    with None show ?thesis by (simp add: insert_oversize)
  next
    case False
    show ?thesis
    proof (cases "getOffsetAndAdvance c w h s")
      case (Pair r s1)
      show ?thesis
      proof (cases r)
        case None': None
        with Pair have "fst (getOffsetAndAdvance c w h s) = None" by simp
        with None False show ?thesis by (simp add: insert_full)
      next
        case (Some off)
        have ev: "events s1 = events s \<or>
                  events s1 = events s @ [CreateAtlas (currentInstanceId s + 1)]"
          using Pair Some
          by (rule_tac goa_cases [where c=c and w=w and h=h and s=s])
             (auto simp add: goa_same_row goa_next_row goa_next_layer goa_next_instance
                goa_full place_def notifyCreateAtlas_def emit_def)
        from None False Pair Some ev show ?thesis
          by (auto simp add: insert_advance)
      qed
    qed
  qed
qed

theorem insert_uploads_or_fails_witness:
  "snd (ins page10 11 1 (construct page10)) = construct page10 \<and>
   snd (ins page10 10 10 (construct page10)) = pin page10 (construct page10)"
  using insert_uploads_or_fails [where c=page10 and w=11 and h=1 and tw=11 and th=1 and fmt=0
      and buf="[]" and u=0 and s="construct page10"]
    insert_uploads_or_fails [where c=page10 and w=10 and h=10 and tw=10 and th=10 and fmt=0
      and buf="[]" and u=0 and s="construct page10"]
  by (simp add: run_defs pin_def)

subsection \<open>The x of a placement\<close>

text \<open>
  Whatever the gaps are (as long as they are not negative): the first image of a fresh
  allocator, when it is as wide as the page and low enough for the row below, is placed
  at x = 0 one row down, although it fails the row-fit test there as it did before.
\<close>

lemma wrap_places_at_zero_any_gap:
  assumes "0 \<le> HorizontalGap c" and "0 \<le> VerticalGap c" and "VerticalGap c + h < height c"
  shows "fst (getOffsetAndAdvance c (width c) h (construct c)) =
           Some \<lparr>off_i = instanceBaseId c, off_x = 0, off_y = VerticalGap c, off_z = 0\<rparr>"
    and "\<not> (0 + HorizontalGap c + width c < width c)"
proof -
  let ?s = "construct c"
  have s: "currentX ?s = 0" "currentY ?s = 0" "currentZ ?s = 0"
    "maxTextureHeightInCurrentRow ?s = 0" "currentInstanceId ?s = instanceBaseId c"
    by (simp_all add: construct_def notifyCreateAtlas_def emit_def)
  from assms s have "\<not> row_fits c (width c) ?s" "next_row_fits c h ?s"
    by (simp_all add: row_fits_def next_row_fits_def)
  then have "getOffsetAndAdvance c (width c) h ?s =
      place c (width c) h (?s\<lparr>currentX := 0,
        currentY := currentY ?s + (maxTextureHeightInCurrentRow ?s + VerticalGap c)\<rparr>)"
    by (rule goa_next_row)
  with s show "fst (getOffsetAndAdvance c (width c) h (construct c)) =
      Some \<lparr>off_i = instanceBaseId c, off_x = 0, off_y = VerticalGap c, off_z = 0\<rparr>"
    by (simp add: offset_def)
  from assms(1) show "\<not> (0 + HorizontalGap c + width c < width c)" by simp
qed

text \<open>
  Claim C8, as the spec states it: after a wrap the packing advance tests the fit
  conditions again, so that every offset it returns has x + gap + width before the
  page's right edge. The code tests the row once, on entry: after a wrap it places at
  x = 0 whatever the width. On the empty 10 by 10 page a request of width 10 does not
  fit the row (0 + 0 + 10 < 10 is false), the advance wraps to the row below and returns
  the offset (0, 0), for which the row-fit condition is false.
\<close>

theorem wrapped_offset_fails_row_fit:
  "fst (getOffsetAndAdvance page10 10 5 (construct page10)) =
     Some \<lparr>off_i = 0, off_x = 0, off_y = 0, off_z = 0\<rparr> \<and>
   \<not> ((0::int) + HorizontalGap page10 + 10 < width page10)"
  by (simp add: run_defs)

text \<open>
  Claim C8, amended to what the code does. The row-fit condition is tested once, on the
  cursor the call starts with. When it holds, the returned offset is at that cursor's x
  and satisfies it. When it fails the advance wraps and the returned offset is at x = 0,
  without a second test. In both cases the cursor's x afterwards is the placed x plus the
  width plus the horizontal gap.
\<close>

theorem advance_offset_x:
  "getOffsetAndAdvance c w h s = (Some off, s') \<Longrightarrow>
     (if row_fits c w s then off_x off = currentX s \<and> off_x off + HorizontalGap c + w < width c
      else off_x off = 0) \<and>
     currentX s' = off_x off + w + HorizontalGap c"
  by (rule goa_cases [where c=c and w=w and h=h and s=s])
     (auto simp add: goa_same_row goa_next_row goa_next_layer goa_next_instance goa_full
        place_def offset_def notifyCreateAtlas_def emit_def row_fits_def)

theorem advance_offset_x_witness:
  "\<not> row_fits page10 10 (construct page10) \<and>
   getOffsetAndAdvance page10 10 5 (construct page10) =
     (Some \<lparr>off_i = 0, off_x = 0, off_y = 0, off_z = 0\<rparr>,
      (construct page10)\<lparr>currentX := 10, maxTextureHeightInCurrentRow := 5\<rparr>) \<and>
   currentX ((construct page10)\<lparr>currentX := 10, maxTextureHeightInCurrentRow := 5\<rparr>) = 0 + 10 + HorizontalGap page10"
proof -
  have run: "getOffsetAndAdvance page10 10 5 (construct page10) =
     (Some \<lparr>off_i = 0, off_x = 0, off_y = 0, off_z = 0\<rparr>,
      (construct page10)\<lparr>currentX := 10, maxTextureHeightInCurrentRow := 5\<rparr>)"
    by (simp add: run_defs)
  show ?thesis
    using advance_offset_x [OF run] run by (simp add: run_defs row_fits_def)
qed

subsection \<open>Placements and the page bounds\<close>

text \<open>
  What the packing advance does keep within the page: the right edge of every placement
  (given a request no wider than the page, which insert's guard ensures, and a gap that
  is not negative), and the bottom edge of every placement made after a wrap. The
  placement into the open row is the one path without a vertical test.
\<close>

lemma advance_within_width:
  assumes "getOffsetAndAdvance c w h s = (Some off, s')"
    and "0 \<le> HorizontalGap c" and "w \<le> width c"
  shows "off_x off + w \<le> width c"
  using assms
  by (rule_tac goa_cases [where c=c and w=w and h=h and s=s])
     (auto simp add: goa_same_row goa_next_row goa_next_layer goa_next_instance goa_full
        place_def offset_def notifyCreateAtlas_def emit_def row_fits_def)

lemma advance_within_height_after_wrap:
  assumes "getOffsetAndAdvance c w h s = (Some off, s')"
    and "\<not> row_fits c w s" and "h \<le> height c"
  shows "off_y off + h \<le> height c"
  using assms
  by (rule_tac goa_cases [where c=c and w=w and h=h and s=s])
     (auto simp add: goa_same_row goa_next_row goa_next_layer goa_next_instance goa_full
        place_def offset_def notifyCreateAtlas_def emit_def next_row_fits_def)

text \<open>
  Whatever the gaps are: in any state whose cursor is below the first row, an image as
  high as the page that fits the open row horizontally (and has no free slot of its size)
  is placed at the cursor, and ends below the page's bottom edge.
\<close>

lemma open_row_overflow_any_gap:
  assumes "currentX s + HorizontalGap c + w < width c" and "0 < currentY s"
    and "discardsForGivenSize s w (height c) = None" and "w \<le> width c"
  shows "\<exists>p s'. insert_texture c w (height c) tw th fmt buf u s = (Some p, s') \<and>
           ti_y (snd p) = currentY s \<and> ti_height (snd p) = height c \<and>
           height c < ti_y (snd p) + ti_height (snd p)"
proof -
  from assms(1) have "row_fits c w s" by (simp add: row_fits_def)
  then have g: "getOffsetAndAdvance c w (height c) s = place c w (height c) s"
    by (rule goa_same_row)
  from assms(4) have "\<not> (height c > height c \<or> w > width c)" by simp
  with assms(3) g assms(2) show ?thesis
    by (simp add: insert_advance place_def newTextureInfo_def offset_def)
qed

text \<open>
  Claim C2: every placement of a successful insert stays within the page, in particular
  y + height \<le> page height. The code tests the height against the page only when it
  wraps to a new row; a request that fits the current row horizontally is placed at the
  current y without any vertical test. On the 10 by 10 page, after two 5 by 3 images
  (at (0, 0) and, one row down, at (0, 3)), a 4 by 10 image fits the open row (5 + 4 < 10)
  and is placed at (5, 3): it ends at y = 13, below the page's bottom edge at 10.
\<close>

theorem tall_image_in_open_row_leaves_page:
  "map_option (\<lambda>p. (ti_x (snd p), ti_y (snd p), ti_width (snd p), ti_height (snd p)))
     (fst (ins page10 4 10 (snd (ins page10 5 3 (snd (ins page10 5 3 (construct page10)))))))
     = Some (5, 3, 4, 10) \<and>
   \<not> ((3::int) + 10 \<le> height page10)"
  by (simp add: run_defs)

subsection \<open>Requests larger than the page\<close>

lemma set_erase: "set (erase a ps) \<subseteq> set ps"
  by (induction ps) auto

lemma discardsForGivenSize_Some:
  "discardsForGivenSize s w h = Some ds \<longleftrightarrow> discarded s (w, h) = Some ds \<and> ds \<noteq> []"
  by (auto simp add: discardsForGivenSize_def split: option.splits)

lemma page_sized_construct: "page_sized c (construct c)"
  by (simp add: page_sized_def construct_def notifyCreateAtlas_def emit_def
      discardsForGivenSize_def)

lemma page_sized_clear: "page_sized c s \<Longrightarrow> page_sized c (clear c s)"
  by (simp add: page_sized_def clear_def discardsForGivenSize_def)

lemma page_sized_release: "page_sized c s \<Longrightarrow> page_sized c (release a s)"
proof (cases "map_of (textureInfos s) a")
  case None
  assume "page_sized c s"
  with None show ?thesis by (simp add: release_def)
next
  case (Some info)
  assume inv: "page_sized c s"
  from Some have "(a, info) \<in> set (textureInfos s)" by (rule map_of_SomeD)
  with inv have sz: "ti_width info \<le> width c \<and> ti_height info \<le> height c"
    by (auto simp add: page_sized_def)
  from inv have old: "\<And>w h. discardsForGivenSize s w h \<noteq> None \<Longrightarrow> w \<le> width c \<and> h \<le> height c"
    by (simp add: page_sized_def)
  show ?thesis
    unfolding page_sized_def
  proof (intro conjI ballI allI impI)
    fix p assume "p \<in> set (textureInfos (release a s))"
    with Some have "p \<in> set (textureInfos s)"
      using set_erase [of a "textureInfos s"] by (auto simp add: release_def Let_def)
    with inv show "ti_width (snd p) \<le> width c" "ti_height (snd p) \<le> height c"
      by (auto simp add: page_sized_def)
  next
    fix w h assume ne: "discardsForGivenSize (release a s) w h \<noteq> None"
    have "w \<le> width c \<and> h \<le> height c"
    proof (cases "(w, h) = (ti_width info, ti_height info)")
      case True
      with sz show ?thesis by simp
    next
      case False
      with ne Some have "discardsForGivenSize s w h \<noteq> None"
        by (auto simp add: release_def Let_def discardsForGivenSize_def)
      then show ?thesis by (rule old)
    qed
    then show "w \<le> width c" "h \<le> height c" by simp_all
  qed
qed

lemma page_sized_insert:
  assumes inv: "page_sized c s"
  shows "page_sized c (snd (insert_texture c w h tw th fmt buf u s))"
proof (cases "discardsForGivenSize s w h")
  case (Some ds)
  with inv have sz: "w \<le> width c \<and> h \<le> height c" by (auto simp add: page_sized_def)
  have "\<And>w' h'. discardsForGivenSize (snd (insert_texture c w h tw th fmt buf u s)) w' h' \<noteq> None
      \<Longrightarrow> (w', h') = (w, h) \<or> discardsForGivenSize s w' h' \<noteq> None"
    using Some by (auto simp add: insert_reuse discardsForGivenSize_def split: if_splits)
  with inv sz Some show ?thesis
    by (fastforce simp add: page_sized_def insert_reuse newTextureInfo_def)
next
  case None
  show ?thesis
  proof (cases "h > height c \<or> w > width c")
    case True
    with None inv show ?thesis by (simp add: insert_oversize)
  next
    case False
    show ?thesis
    proof (cases "getOffsetAndAdvance c w h s")
      case (Pair r s1)
      have fr: "discarded s1 = discarded s" "textureInfos s1 = textureInfos s"
        using goa_frame [of c w h s] Pair by simp_all
      show ?thesis
      proof (cases r)
        case None': None
        with Pair have "fst (getOffsetAndAdvance c w h s) = None" by simp
        with None False inv show ?thesis
          by (simp add: insert_full page_sized_def pin_def discardsForGivenSize_def)
      next
        case (Some off)
        with None False Pair inv fr show ?thesis
          by (auto simp add: insert_advance page_sized_def discardsForGivenSize_def
              newTextureInfo_def)
      qed
    qed
  qed
qed

lemma page_sized_step: "page_sized c s \<Longrightarrow> page_sized c (step c k s)"
  by (cases k) (simp_all add: page_sized_insert page_sized_release page_sized_clear)

lemma run_page_sized: "page_sized c (run c ks (construct c))"
  by (rule run_invariant) (simp_all add: page_sized_construct page_sized_step)

text \<open>
  Claim C5: in every state of the allocator (every state reached from construction by a
  sequence of insert, release and clear calls), an insert whose width exceeds the page width or whose height
  exceeds the page height returns no record and leaves the whole state as it was: the
  cursor, the free-list, the live records, and the backend trace too.
\<close>

theorem oversize_insert_rejected:
  assumes "s = run c ks (construct c)" and "w > width c \<or> h > height c"
  shows "insert_texture c w h tw th fmt buf u s = (None, s)"
proof -
  from assms(1) have "page_sized c s" by (simp add: run_page_sized)
  with assms(2) have "discardsForGivenSize s w h = None"
    by (fastforce simp add: page_sized_def)
  with assms(2) show ?thesis by (auto simp add: insert_oversize)
qed

theorem oversize_insert_rejected_witness:
  "ins page10 11 1 (run page10 [Insert 5 3 5 3 0 [] 0, Release 0] (construct page10)) =
     (None, run page10 [Insert 5 3 5 3 0 [] 0, Release 0] (construct page10)) \<and>
   discarded (run page10 [Insert 5 3 5 3 0 [] 0, Release 0] (construct page10)) (5, 3) =
     Some [\<lparr>off_i = 0, off_x = 0, off_y = 0, off_z = 0\<rparr>]"
proof -
  have o: "(11::int) > width page10 \<or> (1::int) > height page10" by (simp add: page10_def)
  have f: "discarded (run page10 [Insert 5 3 5 3 0 [] 0, Release 0] (construct page10)) (5, 3) =
     Some [\<lparr>off_i = 0, off_x = 0, off_y = 0, off_z = 0\<rparr>]"
    by (simp add: run_defs)
  from oversize_insert_rejected [OF refl o] f show ?thesis
    unfolding ins_def by (intro conjI)
qed

subsection \<open>The range of instance ids\<close>

lemma goa_instance:
  assumes "instance_ok c (currentInstanceId s)"
  shows "instance_ok c (currentInstanceId (snd (getOffsetAndAdvance c w h s)))"
    and "fst (getOffsetAndAdvance c w h s) = Some off \<Longrightarrow>
         off_i off = currentInstanceId (snd (getOffsetAndAdvance c w h s))"
  using assms
  by (rule_tac [!] goa_cases [where c=c and w=w and h=h and s=s])
     (auto simp add: goa_same_row goa_next_row goa_next_layer goa_next_instance goa_full
        offset_def notifyCreateAtlas_def emit_def pin_def instance_ok_def
        next_instance_fits_def)

lemma in_range_construct: "0 < maxInstances c \<Longrightarrow> instances_in_range c (construct c)"
  by (simp add: instances_in_range_def construct_def notifyCreateAtlas_def emit_def
      instance_ok_def)

lemma in_range_clear: "instances_in_range c s \<Longrightarrow> instances_in_range c (clear c s)"
  by (auto simp add: instances_in_range_def clear_def instance_ok_def)

lemma in_range_release:
  assumes inv: "instances_in_range c s"
  shows "instances_in_range c (release a s)"
proof (cases "map_of (textureInfos s) a")
  case None
  with inv show ?thesis by (simp add: release_def)
next
  case (Some info)
  then have "(a, info) \<in> set (textureInfos s)" by (rule map_of_SomeD)
  with inv have ok: "instance_ok c (atlas info)"
    by (auto simp add: instances_in_range_def)
  have live: "\<And>p. p \<in> set (textureInfos (release a s)) \<Longrightarrow> p \<in> set (textureInfos s)"
    using Some set_erase [of a "textureInfos s"] by (auto simp add: release_def Let_def)
  have free: "\<And>k ds off. discarded (release a s) k = Some ds \<Longrightarrow> off \<in> set ds \<Longrightarrow>
      instance_ok c (off_i off)"
    using Some inv ok
    by (auto simp add: release_def Let_def instances_in_range_def
        split: if_splits option.splits)
  from inv Some have cur: "instance_ok c (currentInstanceId (release a s))"
    by (simp add: release_def Let_def instances_in_range_def)
  from cur live free inv show ?thesis
    unfolding instances_in_range_def by blast
qed

lemma in_range_insert:
  assumes inv: "instances_in_range c s"
  shows "instances_in_range c (snd (insert_texture c w h tw th fmt buf u s))"
    and "fst (insert_texture c w h tw th fmt buf u s) = Some p \<Longrightarrow>
         instance_ok c (atlas (snd p))"
proof -
  have "instances_in_range c (snd (insert_texture c w h tw th fmt buf u s)) \<and>
        (\<forall>p. fst (insert_texture c w h tw th fmt buf u s) = Some p \<longrightarrow>
             instance_ok c (atlas (snd p)))"
  proof (cases "discardsForGivenSize s w h")
    case (Some ds)
    then have ds: "discarded s (w, h) = Some ds" "ds \<noteq> []"
      by (simp_all add: discardsForGivenSize_Some)
    with inv have all: "\<forall>off \<in> set ds. instance_ok c (off_i off)"
      by (auto simp add: instances_in_range_def)
    with ds have l: "instance_ok c (off_i (last ds))" by simp
    from all have b: "\<forall>off \<in> set (butlast ds). instance_ok c (off_i off)"
      by (auto dest: in_set_butlastD)
    from inv l b Some show ?thesis
      by (auto simp add: insert_reuse instances_in_range_def newTextureInfo_def
          split: if_splits)
  next
    case None
    show ?thesis
    proof (cases "h > height c \<or> w > width c")
      case True
      with None inv show ?thesis by (simp add: insert_oversize)
    next
      case False
      from inv have cur: "instance_ok c (currentInstanceId s)"
        by (simp add: instances_in_range_def)
      show ?thesis
      proof (cases "getOffsetAndAdvance c w h s")
        case (Pair r s1)
        have fr: "discarded s1 = discarded s" "textureInfos s1 = textureInfos s"
          using goa_frame [of c w h s] Pair by simp_all
        have cur1: "instance_ok c (currentInstanceId s1)"
          using goa_instance(1) [OF cur, of w h] Pair by simp
        show ?thesis
        proof (cases r)
          case None': None
          with Pair have "fst (getOffsetAndAdvance c w h s) = None" by simp
          with None False inv show ?thesis
            by (simp add: insert_full instances_in_range_def pin_def)
        next
          case (Some off)
          have "off_i off = currentInstanceId s1"
            using goa_instance(2) [OF cur, of w h off] Pair Some by simp
          with None False Pair Some inv fr cur1 show ?thesis
            by (auto simp add: insert_advance instances_in_range_def newTextureInfo_def)
        qed
      qed
    qed
  qed
  then show "instances_in_range c (snd (insert_texture c w h tw th fmt buf u s))"
    and "fst (insert_texture c w h tw th fmt buf u s) = Some p \<Longrightarrow>
         instance_ok c (atlas (snd p))"
    by simp_all
qed

lemma in_range_step: "instances_in_range c s \<Longrightarrow> instances_in_range c (step c k s)"
  by (cases k) (simp_all add: in_range_insert(1) in_range_release in_range_clear)

lemma run_in_range: "0 < maxInstances c \<Longrightarrow> instances_in_range c (run c ks (construct c))"
  by (rule run_invariant) (simp_all add: in_range_construct in_range_step)

text \<open>
  Claim C7: in every state reached from construction by a sequence of insert, release and
  clear calls, the current instance id lies in [baseInstanceId, baseInstanceId + maxInstances), and so does
  the instance of every live record and of every record a successful insert returns. The
  constructor checks nothing, so the range must not be empty: maxInstances is positive.
\<close>

theorem instance_id_in_range:
  assumes "0 < maxInstances c" and "s = run c ks (construct c)"
  shows "instance_ok c (currentInstanceId s) \<and>
         (\<forall>p \<in> set (textureInfos s). instance_ok c (atlas (snd p))) \<and>
         (\<forall>w h tw th fmt buf u p.
            fst (insert_texture c w h tw th fmt buf u s) = Some p \<longrightarrow>
            instance_ok c (atlas (snd p)))"
proof -
  from assms have inv: "instances_in_range c s" by (simp add: run_in_range)
  then show ?thesis
    using in_range_insert(2) [OF inv] by (auto simp add: instances_in_range_def)
qed

theorem instance_id_in_range_witness:
  "currentInstanceId (construct (page10\<lparr>maxInstances := 2\<rparr>)) = 0 \<and>
   instance_ok (page10\<lparr>maxInstances := 2\<rparr>) 0 \<and>
   map_option (\<lambda>p. atlas (snd p))
     (fst (ins (page10\<lparr>maxInstances := 2\<rparr>) 10 10
        (construct (page10\<lparr>maxInstances := 2\<rparr>)))) = Some 1 \<and>
   instance_ok (page10\<lparr>maxInstances := 2\<rparr>) 1"
proof -
  let ?c = "page10\<lparr>maxInstances := 2\<rparr>"
  have m: "0 < maxInstances ?c" by (simp add: page10_def)
  have cur: "currentInstanceId (construct ?c) = 0" by (simp add: run_defs)
  have run: "fst (ins ?c 10 10 (construct ?c)) =
      Some (0, newTextureInfo ?c 10 10 10 10 \<lparr>off_i = 1, off_x = 0, off_y = 0, off_z = 0\<rparr> 0)"
    by (simp add: run_defs)
  have e: "construct ?c = run ?c [] (construct ?c)" by simp
  note inst = instance_id_in_range [OF m e]
  from inst have "instance_ok ?c (currentInstanceId (construct ?c))" by (rule conjunct1)
  then have ok0: "instance_ok ?c 0" by (simp only: cur)
  from inst run have ok1: "instance_ok ?c 1"
    unfolding ins_def by (fastforce simp add: newTextureInfo_def)
  from run have at: "map_option (\<lambda>p. atlas (snd p)) (fst (ins ?c 10 10 (construct ?c))) = Some 1"
    by (simp add: newTextureInfo_def)
  from cur ok0 at ok1 show ?thesis by (intro conjI)
qed

subsection \<open>Release followed by an insert of the same size\<close>

lemma insert_Some:
  assumes "insert_texture c w h tw th fmt buf u s = (Some p, s1)"
  shows "fst p = nextRef s" and "textureInfos s1 = textureInfos s @ [p]"
    and "ti_width (snd p) = w" and "ti_height (snd p) = h"
    and "nextRef s1 = Suc (nextRef s)"
proof -
  have "fst p = nextRef s \<and> textureInfos s1 = textureInfos s @ [p] \<and>
        ti_width (snd p) = w \<and> ti_height (snd p) = h \<and> nextRef s1 = Suc (nextRef s)"
  proof (cases "discardsForGivenSize s w h")
    case (Some ds)
    with assms show ?thesis by (auto simp add: insert_reuse newTextureInfo_def)
  next
    case None
    show ?thesis
    proof (cases "h > height c \<or> w > width c")
      case True
      with None assms show ?thesis by (simp add: insert_oversize)
    next
      case False
      show ?thesis
      proof (cases "getOffsetAndAdvance c w h s")
        case (Pair r s')
        show ?thesis
        proof (cases r)
          case None': None
          with Pair have "fst (getOffsetAndAdvance c w h s) = None" by simp
          with None False assms show ?thesis by (simp add: insert_full)
        next
          case (Some off)
          have "nextRef s' = nextRef s" using goa_frame(3) [of c w h s] Pair by simp
          with None False Pair Some assms show ?thesis
            by (auto simp add: insert_advance newTextureInfo_def)
        qed
      qed
    qed
  qed
  then show "fst p = nextRef s" and "textureInfos s1 = textureInfos s @ [p]"
    and "ti_width (snd p) = w" and "ti_height (snd p) = h"
    and "nextRef s1 = Suc (nextRef s)"
    by simp_all
qed

lemma insert_None:
  assumes "insert_texture c w h tw th fmt buf u s = (None, s1)"
  shows "s1 = s \<or> s1 = pin c s"
proof (cases "discardsForGivenSize s w h")
  case (Some ds)
  with assms show ?thesis by (simp add: insert_reuse)
next
  case None
  show ?thesis
  proof (cases "h > height c \<or> w > width c")
    case True
    with None assms show ?thesis by (simp add: insert_oversize)
  next
    case False
    show ?thesis
    proof (cases "getOffsetAndAdvance c w h s")
      case (Pair r s')
      show ?thesis
      proof (cases r)
        case None': None
        with Pair have "fst (getOffsetAndAdvance c w h s) = None" by simp
        with None False assms show ?thesis by (simp add: insert_full)
      next
        case (Some off)
        with None False Pair assms show ?thesis by (simp add: insert_advance)
      qed
    qed
  qed
qed

lemma insert_discarded_cases:
  assumes same: "discarded (snd (insert_texture c w h tw th fmt buf u s)) = discarded s \<Longrightarrow> P"
    and erased: "\<And>ds. discarded s (w, h) = Some ds \<Longrightarrow> ds \<noteq> [] \<Longrightarrow> butlast ds = [] \<Longrightarrow>
       discarded (snd (insert_texture c w h tw th fmt buf u s)) = (discarded s)((w, h) := None)
       \<Longrightarrow> P"
    and popped: "\<And>ds. discarded s (w, h) = Some ds \<Longrightarrow> butlast ds \<noteq> [] \<Longrightarrow>
       discarded (snd (insert_texture c w h tw th fmt buf u s)) =
         (discarded s)((w, h) \<mapsto> butlast ds) \<Longrightarrow> P"
  shows P
proof (cases "discardsForGivenSize s w h")
  case (Some ds)
  then have ds: "discarded s (w, h) = Some ds" "ds \<noteq> []"
    by (simp_all add: discardsForGivenSize_Some)
  show ?thesis
  proof (cases "butlast ds = []")
    case True
    with ds show ?thesis by (intro erased [of ds]) (simp_all add: insert_reuse [OF Some])
  next
    case False
    with ds show ?thesis by (intro popped [of ds]) (simp_all add: insert_reuse [OF Some])
  qed
next
  case None
  obtain r s1 where Pair: "insert_texture c w h tw th fmt buf u s = (r, s1)"
    by (cases "insert_texture c w h tw th fmt buf u s")
  have "discarded s1 = discarded s"
  proof (cases r)
    case None': None
    with Pair have "s1 = s \<or> s1 = pin c s" by (auto dest: insert_None)
    then show ?thesis by (auto simp add: pin_def)
  next
    case (Some p)
    have ns: "\<not> (h > height c \<or> w > width c)"
      using None Pair Some by (auto simp add: insert_oversize)
    obtain r' s' where g: "getOffsetAndAdvance c w h s = (r', s')"
      by (cases "getOffsetAndAdvance c w h s")
    with None ns Pair Some obtain off where "r' = Some off"
      by (cases r') (auto simp add: insert_full)
    with None ns g Pair have "discarded s1 = discarded s'"
      by (auto simp add: insert_advance)
    moreover have "discarded s' = discarded s" using goa_frame(1) [of c w h s] g by simp
    ultimately show ?thesis by simp
  qed
  with Pair show ?thesis by (intro same) simp
qed

lemma refs_fresh_step: "refs_fresh s \<Longrightarrow> refs_fresh (step c k s)"
proof (cases k)
  case (Insert w h tw th fmt buf u)
  assume inv: "refs_fresh s"
  show ?thesis
  proof (cases "insert_texture c w h tw th fmt buf u s")
    case (Pair r s1)
    show ?thesis
    proof (cases r)
      case None
      with Pair have "s1 = s \<or> s1 = pin c s" by (auto dest: insert_None)
      with inv Pair Insert show ?thesis by (fastforce simp add: refs_fresh_def pin_def)
    next
      case (Some p)
      with Pair inv Insert show ?thesis
        using insert_Some [of c w h tw th fmt buf u s p s1]
        by (auto simp add: refs_fresh_def less_Suc_eq)
    qed
  qed
next
  case (Release a)
  assume inv: "refs_fresh s"
  with Release show ?thesis
    using set_erase [of a "textureInfos s"]
    by (auto simp add: refs_fresh_def release_def Let_def split: option.splits)
next
  case Clear
  assume "refs_fresh s"
  with Clear show ?thesis by (simp add: refs_fresh_def clear_def)
qed

lemma no_empty_vector_step: "no_empty_vector s \<Longrightarrow> no_empty_vector (step c k s)"
proof (cases k)
  case (Insert w h tw th fmt buf u)
  assume inv: "no_empty_vector s"
  let ?s' = "snd (insert_texture c w h tw th fmt buf u s)"
  have "discarded ?s' k' \<noteq> Some []" for k'
  proof -
    from inv have old: "discarded s k' \<noteq> Some []"
      by (cases k') (simp add: no_empty_vector_def)
    then show ?thesis
      by (rule_tac insert_discarded_cases [of c w h tw th fmt buf u s]) auto
  qed
  with Insert show ?thesis by (simp add: no_empty_vector_def)
next
  case (Release a)
  assume inv: "no_empty_vector s"
  with Release show ?thesis
    by (auto simp add: no_empty_vector_def release_def Let_def split: option.splits)
next
  case Clear
  then show ?thesis by (simp add: no_empty_vector_def clear_def)
qed

lemma run_refs_fresh: "refs_fresh (run c ks (construct c))"
proof (rule run_invariant)
  show "refs_fresh (construct c)"
    by (simp add: refs_fresh_def construct_def notifyCreateAtlas_def emit_def)
qed (rule refs_fresh_step)

lemma run_no_empty_vector: "no_empty_vector (run c ks (construct c))"
proof (rule run_invariant)
  show "no_empty_vector (construct c)"
    by (simp add: no_empty_vector_def construct_def notifyCreateAtlas_def emit_def)
qed (rule no_empty_vector_step)

lemma map_of_snoc_fresh:
  "a \<notin> fst ` set ps \<Longrightarrow> map_of (ps @ [(a, v)]) a = Some v"
  by (induction ps) auto

lemma erase_snoc_fresh:
  "a \<notin> fst ` set ps \<Longrightarrow> erase a (ps @ [(a, v)]) = ps"
  by (induction ps) auto

text \<open>
  Last freed, first served: after the release of a live record, an insert of that record's
  size takes the record's offset from the back of the vector, whatever else the vector
  holds, and leaves the cursor and the free-list as they were before the release.
\<close>

lemma release_then_insert:
  assumes ne: "no_empty_vector s" and live: "map_of (textureInfos s) a = Some info"
  shows "insert_texture c (ti_width info) (ti_height info) tw th fmt buf u (release a s) =
    (Some (nextRef s,
       newTextureInfo c (ti_width info) (ti_height info) tw th
         \<lparr>off_i = atlas info, off_x = ti_x info, off_y = ti_y info, off_z = ti_z info\<rparr> u),
     s\<lparr>textureInfos := erase a (textureInfos s) @
          [(nextRef s, newTextureInfo c (ti_width info) (ti_height info) tw th
             \<lparr>off_i = atlas info, off_x = ti_x info, off_y = ti_y info, off_z = ti_z info\<rparr> u)],
       nextRef := Suc (nextRef s),
       events := events s @
          [UploadTexture (nextRef s)
             (newTextureInfo c (ti_width info) (ti_height info) tw th
                \<lparr>off_i = atlas info, off_x = ti_x info, off_y = ti_y info,
                  off_z = ti_z info\<rparr> u) buf fmt]\<rparr>)"
proof -
  let ?k = "(ti_width info, ti_height info)"
  let ?off = "\<lparr>off_i = atlas info, off_x = ti_x info, off_y = ti_y info, off_z = ti_z info\<rparr>"
  let ?ds = "case discarded s ?k of None \<Rightarrow> [] | Some v \<Rightarrow> v"
  have rel: "release a s = s\<lparr>discarded := (discarded s)(?k \<mapsto> ?ds @ [?off]),
      textureInfos := erase a (textureInfos s)\<rparr>"
    using live by (simp add: release_def Let_def)
  have look: "discardsForGivenSize (release a s) (ti_width info) (ti_height info) =
      Some (?ds @ [?off])"
    by (simp add: rel discardsForGivenSize_def)
  have undo: "(if butlast (?ds @ [?off]) = [] then (discarded (release a s))(?k := None)
       else (discarded (release a s))(?k \<mapsto> butlast (?ds @ [?off]))) = discarded s"
  proof (cases "discarded s ?k")
    case None
    then show ?thesis by (simp add: rel fun_upd_idem)
  next
    case (Some v)
    with ne have "v \<noteq> []" by (auto simp add: no_empty_vector_def)
    with Some show ?thesis by (simp add: rel fun_upd_idem)
  qed
  show ?thesis
    unfolding insert_reuse [OF look, of c tw th fmt buf u] undo last_snoc
    by (simp add: rel)
qed

text \<open>
  Claim C4: from any state the allocator can be in (reached from construction by a
  sequence of insert, release and clear calls), when an insert of size (w, h) succeeds and the record
  it returned is released, the next insert of size (w, h) returns a record at the same
  instance, x, y and layer. It is served from the free-list (the offset released last),
  and the state after it is the state before the release with only the list of live
  records, the next address and the backend trace (one upload) changed: the packing cursor
  has not advanced, and the free-list is as it was before the release.
\<close>

theorem release_then_insert_reuses_offset:
  assumes "s = run c ks (construct c)"
    and "insert_texture c w h tw th fmt buf u s = (Some p, s1)"
  shows "insert_texture c w h tw' th' fmt' buf' u' (release (fst p) s1) =
    (Some (nextRef s1,
       newTextureInfo c w h tw' th'
         \<lparr>off_i = atlas (snd p), off_x = ti_x (snd p), off_y = ti_y (snd p),
           off_z = ti_z (snd p)\<rparr> u'),
     s1\<lparr>textureInfos := textureInfos s @
          [(nextRef s1, newTextureInfo c w h tw' th'
             \<lparr>off_i = atlas (snd p), off_x = ti_x (snd p), off_y = ti_y (snd p),
               off_z = ti_z (snd p)\<rparr> u')],
        nextRef := Suc (nextRef s1),
        events := events s1 @
          [UploadTexture (nextRef s1)
             (newTextureInfo c w h tw' th'
                \<lparr>off_i = atlas (snd p), off_x = ti_x (snd p), off_y = ti_y (snd p),
                  off_z = ti_z (snd p)\<rparr> u') buf' fmt']\<rparr>)"
proof -
  note ins = insert_Some [OF assms(2)]
  from assms(1) have "refs_fresh s" by (simp add: run_refs_fresh)
  then have fresh: "fst p \<notin> fst ` set (textureInfos s)"
    using ins(1) by (auto simp add: refs_fresh_def)
  have p: "p = (fst p, snd p)" by simp
  have live: "map_of (textureInfos s1) (fst p) = Some (snd p)"
    using map_of_snoc_fresh [OF fresh, of "snd p"] ins(2) by simp
  have er: "erase (fst p) (textureInfos s1) = textureInfos s"
    using erase_snoc_fresh [OF fresh, of "snd p"] ins(2) by simp
  have "s1 = run c (ks @ [Insert w h tw th fmt buf u]) (construct c)"
    using assms by (simp add: run_snoc)
  then have ne: "no_empty_vector s1" by (simp only: run_no_empty_vector)
  show ?thesis
    using release_then_insert [OF ne live, of c tw' th' fmt' buf' u'] ins(3,4) er by simp
qed

theorem release_then_insert_reuses_offset_witness:
  "fst (ins page10 5 3 (release 1 (snd (ins page10 5 3 (snd (ins page10 5 3 (construct page10))))))) =
     Some (2, newTextureInfo page10 5 3 5 3 \<lparr>off_i = 0, off_x = 0, off_y = 3, off_z = 0\<rparr> 0) \<and>
   currentX (snd (ins page10 5 3
      (release 1 (snd (ins page10 5 3 (snd (ins page10 5 3 (construct page10)))))))) = 5 \<and>
   currentY (snd (ins page10 5 3
      (release 1 (snd (ins page10 5 3 (snd (ins page10 5 3 (construct page10)))))))) = 3"
proof -
  let ?s = "snd (ins page10 5 3 (construct page10))"
  let ?p = "(1::nat, newTextureInfo page10 5 3 5 3 \<lparr>off_i = 0, off_x = 0, off_y = 3, off_z = 0\<rparr> 0)"
  have r: "?s = run page10 [Insert 5 3 5 3 0 [] 0] (construct page10)"
    by (simp add: ins_def)
  have i: "insert_texture page10 5 3 5 3 0 [] 0 ?s = (Some ?p, snd (ins page10 5 3 ?s))"
    by (simp add: run_defs)
  have n: "nextRef (snd (ins page10 5 3 ?s)) = 2"
    and x: "currentX (snd (ins page10 5 3 ?s)) = 5"
    and y: "currentY (snd (ins page10 5 3 ?s)) = 3"
    by (simp_all add: run_defs)
  from release_then_insert_reuses_offset [OF r i, of 5 3 0 "[]" 0] n x y show ?thesis
    by (simp add: ins_def newTextureInfo_def)
qed

subsection \<open>Exhaustion of a single page\<close>

lemma created_append [simp]: "created (es @ fs) = created es @ created fs"
  by (induction es rule: created.induct) simp_all

lemma goa_created:
  "created (events (snd (getOffsetAndAdvance c w h s))) =
     (if \<not> row_fits c w s \<and> \<not> next_row_fits c h s \<and> \<not> next_layer_fits c s \<and>
         next_instance_fits c s
      then created (events s) @ [currentInstanceId s + 1] else created (events s))"
  and goa_instance_id:
  "currentInstanceId (snd (getOffsetAndAdvance c w h s)) =
     (if \<not> row_fits c w s \<and> \<not> next_row_fits c h s \<and> \<not> next_layer_fits c s \<and>
         next_instance_fits c s
      then currentInstanceId s + 1 else currentInstanceId s)"
  by (rule goa_cases [where c=c and w=w and h=h and s=s];
      simp add: goa_same_row goa_next_row goa_next_layer goa_next_instance goa_full pin_def
        notifyCreateAtlas_def emit_def)+

lemma insert_created:
  "created (events (snd (insert_texture c w h tw th fmt buf u s))) = created (events s) \<and>
   currentInstanceId (snd (insert_texture c w h tw th fmt buf u s)) = currentInstanceId s
   \<or> next_instance_fits c s"
proof (cases "discardsForGivenSize s w h")
  case (Some ds)
  then show ?thesis by (simp add: insert_reuse)
next
  case None
  show ?thesis
  proof (cases "h > height c \<or> w > width c")
    case True
    with None show ?thesis by (simp add: insert_oversize)
  next
    case False
    show ?thesis
    proof (cases "getOffsetAndAdvance c w h s")
      case (Pair r s1)
      have cr: "created (events s1) = created (events s) \<and>
                currentInstanceId s1 = currentInstanceId s \<or> next_instance_fits c s"
        using goa_created [of c w h s] goa_instance_id [of c w h s] Pair
        by (auto split: if_splits)
      show ?thesis
      proof (cases r)
        case None': None
        with Pair have "fst (getOffsetAndAdvance c w h s) = None" by simp
        with None False show ?thesis by (simp add: insert_full pin_def)
      next
        case (Some off)
        with None False Pair cr show ?thesis by (auto simp add: insert_advance)
      qed
    qed
  qed
qed

lemma release_frame [simp]:
  "currentX (release a s) = currentX s"
  "currentY (release a s) = currentY s"
  "currentZ (release a s) = currentZ s"
  "currentInstanceId (release a s) = currentInstanceId s"
  "maxTextureHeightInCurrentRow (release a s) = maxTextureHeightInCurrentRow s"
  "events (release a s) = events s"
  "nextRef (release a s) = nextRef s"
  by (simp_all add: release_def Let_def split: option.splits)

lemma single_instance_step:
  assumes "maxInstances c = 1"
    and "currentInstanceId s = instanceBaseId c \<and> created (events s) = [instanceBaseId c]"
  shows "currentInstanceId (step c k s) = instanceBaseId c \<and>
         created (events (step c k s)) = [instanceBaseId c]"
proof (cases k)
  case (Insert w h tw th fmt buf u)
  from assms have "\<not> next_instance_fits c s" by (simp add: next_instance_fits_def)
  with insert_created [of c w h tw th fmt buf u s] assms(2) Insert show ?thesis by simp
next
  case (Release a)
  with assms(2) show ?thesis by simp
next
  case Clear
  with assms(2) show ?thesis by (simp add: clear_def)
qed

lemma run_single_instance:
  assumes "maxInstances c = 1"
  shows "currentInstanceId (run c ks (construct c)) = instanceBaseId c \<and>
         created (events (run c ks (construct c))) = [instanceBaseId c]"
proof (rule run_invariant)
  show "currentInstanceId (construct c) = instanceBaseId c \<and>
      created (events (construct c)) = [instanceBaseId c]"
    by (simp add: construct_def notifyCreateAtlas_def emit_def)
qed (rule single_instance_step [OF assms])

lemma goa_layer_nonneg:
  "0 \<le> depth c \<Longrightarrow> 0 \<le> currentZ s \<Longrightarrow> 0 \<le> currentZ (snd (getOffsetAndAdvance c w h s))"
  by (rule goa_cases [where c=c and w=w and h=h and s=s])
     (simp_all add: goa_same_row goa_next_row goa_next_layer goa_next_instance goa_full pin_def
        notifyCreateAtlas_def emit_def)

lemma layer_nonneg_step:
  assumes "0 \<le> depth c" and "0 \<le> currentZ s"
  shows "0 \<le> currentZ (step c k s)"
proof (cases k)
  case (Insert w h tw th fmt buf u)
  show ?thesis
  proof (cases "discardsForGivenSize s w h")
    case (Some ds)
    with assms Insert show ?thesis by (simp add: insert_reuse)
  next
    case None
    show ?thesis
    proof (cases "h > height c \<or> w > width c")
      case True
      with None assms Insert show ?thesis by (simp add: insert_oversize)
    next
      case False
      show ?thesis
      proof (cases "getOffsetAndAdvance c w h s")
        case (Pair r s1)
        have z: "0 \<le> currentZ s1" using goa_layer_nonneg [OF assms, of w h] Pair by simp
        show ?thesis
        proof (cases r)
          case None': None
          with Pair have "fst (getOffsetAndAdvance c w h s) = None" by simp
          with None False assms Insert show ?thesis by (simp add: insert_full pin_def)
        next
          case (Some off)
          with None False Pair z Insert show ?thesis by (simp add: insert_advance)
        qed
      qed
    qed
  qed
next
  case (Release a)
  with assms show ?thesis by simp
next
  case Clear
  then show ?thesis by (simp add: clear_def)
qed

lemma run_layer_nonneg:
  assumes "0 \<le> depth c"
  shows "0 \<le> currentZ (run c ks (construct c))"
proof (rule run_invariant)
  show "0 \<le> currentZ (construct c)"
    by (simp add: construct_def notifyCreateAtlas_def emit_def)
qed (rule layer_nonneg_step [OF assms])

lemma pin_pinned: "pinned c (pin c s)"
  by (simp add: pinned_def pin_def)

lemma pinned_pin: "pinned c s \<Longrightarrow> pin c s = s"
  by (simp add: pinned_def pin_def)

lemma pinned_insert_fails:
  assumes "pinned c s" and "0 \<le> HorizontalGap c" and "0 \<le> VerticalGap c"
    and "\<not> next_instance_fits c s" and "0 \<le> w" and "0 \<le> h"
    and "discardsForGivenSize s w h = None"
  shows "insert_texture c w h tw th fmt buf u s = (None, s)"
proof (cases "h > height c \<or> w > width c")
  case True
  with assms(7) show ?thesis by (simp add: insert_oversize)
next
  case False
  from assms have "\<not> row_fits c w s" "\<not> next_row_fits c h s" "\<not> next_layer_fits c s"
    by (simp_all add: pinned_def row_fits_def next_row_fits_def next_layer_fits_def)
  with assms(4) have "getOffsetAndAdvance c w h s = (None, pin c s)" by (simp add: goa_full)
  with assms(7) False have "insert_texture c w h tw th fmt buf u s = (None, pin c s)"
    by (simp add: insert_full)
  with assms(1) show ?thesis by (simp add: pinned_pin)
qed

lemma pinned_step:
  assumes "pinned c s" and "0 \<le> HorizontalGap c" and "0 \<le> VerticalGap c"
    and "\<not> next_instance_fits c s" and "insert_or_release k"
  shows "pinned c (step c k s) \<and> currentInstanceId (step c k s) = currentInstanceId s"
proof (cases k)
  case (Insert w h tw th fmt buf u)
  show ?thesis
  proof (cases "discardsForGivenSize s w h")
    case (Some ds)
    with assms(1) Insert show ?thesis by (simp add: insert_reuse pinned_def)
  next
    case None
    with assms Insert have "insert_texture c w h tw th fmt buf u s = (None, s)"
      by (simp add: pinned_insert_fails)
    with assms(1) Insert show ?thesis by simp
  qed
next
  case (Release a)
  with assms(1) show ?thesis by (simp add: pinned_def)
next
  case Clear
  with assms(5) show ?thesis by simp
qed

lemma pinned_run:
  assumes "0 \<le> HorizontalGap c" and "0 \<le> VerticalGap c"
  shows "pinned c s \<Longrightarrow> \<not> next_instance_fits c s \<Longrightarrow> list_all insert_or_release ks \<Longrightarrow>
         pinned c (run c ks s) \<and> currentInstanceId (run c ks s) = currentInstanceId s"
proof (induction ks arbitrary: s)
  case Nil
  then show ?case by simp
next
  case (Cons k ks)
  from Cons.prems assms have st: "pinned c (step c k s) \<and>
      currentInstanceId (step c k s) = currentInstanceId s"
    by (simp add: pinned_step)
  with Cons.prems have "\<not> next_instance_fits c (step c k s)"
    by (simp add: next_instance_fits_def)
  with st Cons.prems Cons.IH [of "step c k s"] show ?case by simp
qed

text \<open>
  Claim C6: with depth = 1 and maxInstances = 1 (and gaps that are not negative), in any
  state the allocator can be in, an insert that is no larger than the page, finds no free slot of its
  size, fits neither the current row nor the row below, fails; it creates no instance (the
  only \<^verbatim>\<open>createAtlas\<close> ever issued is the constructor's), and it pins the cursor at
  x = page width, y = page height, layer = depth. After any further inserts (of
  non-negative sizes) and releases the cursor is still pinned, still only the first
  instance has been created, and every insert that finds no free slot of its size fails
  and leaves the state as it is.
\<close>

theorem single_page_exhausted:
  assumes "depth c = 1" and "maxInstances c = 1"
    and "0 \<le> HorizontalGap c" and "0 \<le> VerticalGap c"
    and "s = run c hist (construct c)"
    and "discardsForGivenSize s w h = None"
    and "w \<le> width c" and "h \<le> height c"
    and "\<not> row_fits c w s" and "\<not> next_row_fits c h s"
  shows "insert_texture c w h tw th fmt buf u s = (None, pin c s) \<and>
         created (events (pin c s)) = [instanceBaseId c] \<and>
         currentX (pin c s) = width c \<and> currentY (pin c s) = height c \<and>
         currentZ (pin c s) = depth c \<and>
         (\<forall>ks. list_all insert_or_release ks \<longrightarrow>
            pinned c (run c ks (pin c s)) \<and>
            created (events (run c ks (pin c s))) = [instanceBaseId c] \<and>
            (\<forall>w' h' tw' th' fmt' buf' u'.
               0 \<le> w' \<and> 0 \<le> h' \<and> discardsForGivenSize (run c ks (pin c s)) w' h' = None \<longrightarrow>
               insert_texture c w' h' tw' th' fmt' buf' u' (run c ks (pin c s)) =
                 (None, run c ks (pin c s))))"
proof -
  from assms(5) assms(1) have z: "0 \<le> currentZ s" by (simp add: run_layer_nonneg)
  from assms(5) assms(2) have one: "currentInstanceId s = instanceBaseId c"
    "created (events s) = [instanceBaseId c]"
    by (simp_all add: run_single_instance)
  from z assms(1) have nl: "\<not> next_layer_fits c s" by (simp add: next_layer_fits_def)
  from one assms(2) have ni: "\<not> next_instance_fits c s" by (simp add: next_instance_fits_def)
  from assms(9,10) nl ni have "getOffsetAndAdvance c w h s = (None, pin c s)" by (rule goa_full)
  with assms(6,7,8) have fail: "insert_texture c w h tw th fmt buf u s = (None, pin c s)"
    by (simp add: insert_full)
  from fail assms(5) have rp: "pin c s = run c (hist @ [Insert w h tw th fmt buf u]) (construct c)"
    by (simp add: run_snoc)
  have nip: "\<not> next_instance_fits c (pin c s)"
    using ni by (simp add: next_instance_fits_def pin_def)
  have later: "pinned c (run c ks (pin c s)) \<and>
      created (events (run c ks (pin c s))) = [instanceBaseId c] \<and>
      (\<forall>w' h' tw' th' fmt' buf' u'.
         0 \<le> w' \<and> 0 \<le> h' \<and> discardsForGivenSize (run c ks (pin c s)) w' h' = None \<longrightarrow>
         insert_texture c w' h' tw' th' fmt' buf' u' (run c ks (pin c s)) =
           (None, run c ks (pin c s)))"
    if ks: "list_all insert_or_release ks" for ks
  proof -
    let ?s' = "run c ks (pin c s)"
    from rp have "?s' = run c ((hist @ [Insert w h tw th fmt buf u]) @ ks) (construct c)"
      by (simp only: run_append)
    with assms(2) have cr: "created (events ?s') = [instanceBaseId c]"
      by (simp only: run_single_instance)
    from pinned_run [OF assms(3,4) pin_pinned nip ks]
    have pn: "pinned c ?s'" and "currentInstanceId ?s' = currentInstanceId (pin c s)"
      by simp_all
    with nip have "\<not> next_instance_fits c ?s'" by (simp add: next_instance_fits_def)
    with pn assms(3,4) cr show ?thesis by (simp add: pinned_insert_fails)
  qed
  from fail one later show ?thesis by (simp add: pin_def)
qed

theorem single_page_exhausted_witness:
  "ins page10 10 10 (construct page10) = (None, pin page10 (construct page10)) \<and>
   created (events (pin page10 (construct page10))) = [0] \<and>
   currentX (pin page10 (construct page10)) = 10 \<and>
   currentY (pin page10 (construct page10)) = 10 \<and>
   currentZ (pin page10 (construct page10)) = 1 \<and>
   created (events (run page10 [Insert 1 1 1 1 0 [] 0, Release 0]
      (pin page10 (construct page10)))) = [0] \<and>
   ins page10 2 2 (run page10 [Insert 1 1 1 1 0 [] 0, Release 0]
      (pin page10 (construct page10))) =
     (None, run page10 [Insert 1 1 1 1 0 [] 0, Release 0] (pin page10 (construct page10)))"
proof -
  let ?s = "construct page10"
  let ?ks = "[Insert 1 1 1 1 0 [] 0, Release 0]"
  have cfg: "depth page10 = 1" "maxInstances page10 = 1" "0 \<le> HorizontalGap page10"
    "0 \<le> VerticalGap page10" "instanceBaseId page10 = 0" "width page10 = 10"
    "height page10 = 10"
    by (simp_all add: page10_def)
  have req: "discardsForGivenSize ?s 10 10 = None" "(10::int) \<le> width page10"
    "(10::int) \<le> height page10" "\<not> row_fits page10 10 ?s" "\<not> next_row_fits page10 10 ?s"
    by (simp_all add: run_defs row_fits_def next_row_fits_def)
  have ks: "list_all insert_or_release ?ks" by simp
  have free: "(0::int) \<le> 2 \<and> (0::int) \<le> 2 \<and>
      discardsForGivenSize (run page10 ?ks (pin page10 ?s)) 2 2 = None"
    by (simp add: run_defs pin_def)
  have e: "?s = run page10 [] ?s" by simp
  note inst = single_page_exhausted [OF cfg(1-4) e req, of 10 10 0 "[]" 0]
  from inst have a: "ins page10 10 10 ?s = (None, pin page10 ?s)"
    unfolding ins_def by (rule conjunct1)
  from inst ks free have b: "created (events (run page10 ?ks (pin page10 ?s))) = [0]"
    "ins page10 2 2 (run page10 ?ks (pin page10 ?s)) = (None, run page10 ?ks (pin page10 ?s))"
    unfolding ins_def cfg(5) by blast+
  from inst have c: "created (events (pin page10 ?s)) = [0]"
    "currentX (pin page10 ?s) = 10" "currentY (pin page10 ?s) = 10"
    "currentZ (pin page10 ?s) = 1"
    unfolding cfg by blast+
  from a b c show ?thesis by (intro conjI)
qed

subsection \<open>Placements do not overlap\<close>

lemma passed_place:
  "passed s r \<Longrightarrow> 0 \<le> w \<Longrightarrow> 0 \<le> HorizontalGap c \<Longrightarrow> passed (snd (place c w h s)) r"
  by (auto simp add: passed_def)

lemma new_passed:
  "0 \<le> HorizontalGap c \<Longrightarrow>
   passed (snd (place c w h s)) (newTextureInfo c w h tw th (offset s) u)"
  by (simp add: passed_def newTextureInfo_def offset_def)

lemma passed_disjoint:
  "passed s r \<Longrightarrow> \<not> overlaps r (newTextureInfo c w h tw th (offset s) u)"
  by (auto simp add: passed_def overlaps_def newTextureInfo_def offset_def)

lemma passed_next_row:
  "passed s r \<Longrightarrow> 0 \<le> maxTextureHeightInCurrentRow s \<Longrightarrow> 0 \<le> VerticalGap c \<Longrightarrow>
   passed (s\<lparr>currentX := 0,
      currentY := currentY s + (maxTextureHeightInCurrentRow s + VerticalGap c)\<rparr>) r"
  by (auto simp add: passed_def)

lemma passed_next_layer:
  "passed s r \<Longrightarrow>
   passed (s\<lparr>currentX := 0, currentY := 0, maxTextureHeightInCurrentRow := 0,
      currentZ := currentZ s + 1\<rparr>) r"
  by (auto simp add: passed_def)

lemma passed_next_instance:
  "passed s r \<Longrightarrow>
   passed (notifyCreateAtlas (s\<lparr>currentX := 0, currentY := 0,
      maxTextureHeightInCurrentRow := 0, currentZ := 0,
      currentInstanceId := currentInstanceId s + 1\<rparr>)) r"
  by (auto simp add: passed_def notifyCreateAtlas_def emit_def)

lemma passed_pin: "passed s r \<Longrightarrow> ti_z r < depth c \<Longrightarrow> passed (pin c s) r"
  by (auto simp add: passed_def pin_def)

lemma packed_place:
  assumes "packed c t P" and "currentZ t < depth c" and "0 \<le> HorizontalGap c" and "0 \<le> w"
  shows "(\<forall>r \<in> P. \<not> overlaps r (newTextureInfo c w h tw th (offset t) u)) \<and>
         packed c (snd (place c w h t)) (insert (newTextureInfo c w h tw th (offset t) u) P)"
proof -
  from assms(1) have old: "\<And>r. r \<in> P \<Longrightarrow> passed t r \<and> ti_z r < depth c"
    by (simp add: packed_def)
  have new: "ti_z (newTextureInfo c w h tw th (offset t) u) < depth c"
    using assms(2) by (simp add: newTextureInfo_def offset_def)
  have "\<forall>r \<in> P. \<not> overlaps r (newTextureInfo c w h tw th (offset t) u)"
    using old by (simp add: passed_disjoint)
  moreover have "packed c (snd (place c w h t))
      (insert (newTextureInfo c w h tw th (offset t) u) P)"
    unfolding packed_def
  proof (intro conjI ballI)
    show "discarded (snd (place c w h t)) = Map.empty"
      using assms(1) by (simp add: packed_def)
    show "0 \<le> maxTextureHeightInCurrentRow (snd (place c w h t))"
      using assms(1) by (auto simp add: packed_def)
    show "currentZ (snd (place c w h t)) < depth c \<or>
        pinned c (snd (place c w h t)) \<and> \<not> next_instance_fits c (snd (place c w h t))"
      using assms(2) by simp
  next
    fix r assume "r \<in> insert (newTextureInfo c w h tw th (offset t) u) P"
    then show "passed (snd (place c w h t)) r" and "ti_z r < depth c"
      using old new assms(3,4) by (auto intro: passed_place new_passed)
  qed
  ultimately show ?thesis by simp
qed

lemma packed_next_row:
  assumes "packed c s P" and "currentZ s < depth c" and "0 \<le> VerticalGap c"
  shows "packed c (s\<lparr>currentX := 0,
      currentY := currentY s + (maxTextureHeightInCurrentRow s + VerticalGap c)\<rparr>) P"
  using assms by (simp add: packed_def passed_next_row)

lemma packed_next_layer:
  assumes "packed c s P" and "next_layer_fits c s"
  shows "packed c (s\<lparr>currentX := 0, currentY := 0, maxTextureHeightInCurrentRow := 0,
      currentZ := currentZ s + 1\<rparr>) P"
  using assms by (simp add: packed_def passed_next_layer next_layer_fits_def)

lemma packed_next_instance:
  assumes "packed c s P" and "0 < depth c"
  shows "packed c (notifyCreateAtlas (s\<lparr>currentX := 0, currentY := 0,
      maxTextureHeightInCurrentRow := 0, currentZ := 0,
      currentInstanceId := currentInstanceId s + 1\<rparr>)) P"
proof -
  have "discarded (notifyCreateAtlas (s\<lparr>currentX := 0, currentY := 0,
      maxTextureHeightInCurrentRow := 0, currentZ := 0,
      currentInstanceId := currentInstanceId s + 1\<rparr>)) = discarded s"
    and "maxTextureHeightInCurrentRow (notifyCreateAtlas (s\<lparr>currentX := 0, currentY := 0,
      maxTextureHeightInCurrentRow := 0, currentZ := 0,
      currentInstanceId := currentInstanceId s + 1\<rparr>)) = 0"
    and "currentZ (notifyCreateAtlas (s\<lparr>currentX := 0, currentY := 0,
      maxTextureHeightInCurrentRow := 0, currentZ := 0,
      currentInstanceId := currentInstanceId s + 1\<rparr>)) = 0"
    by (simp_all add: notifyCreateAtlas_def emit_def)
  with assms show ?thesis by (simp add: packed_def passed_next_instance)
qed

lemma packed_pin:
  assumes "packed c s P" and "\<not> next_instance_fits c s"
  shows "packed c (pin c s) P"
proof -
  have "pinned c (pin c s)" by (rule pin_pinned)
  moreover have "\<not> next_instance_fits c (pin c s)"
    using assms(2) by (simp add: next_instance_fits_def pin_def)
  moreover have "discarded (pin c s) = discarded s"
    "maxTextureHeightInCurrentRow (pin c s) = 0"
    by (simp_all add: pin_def)
  ultimately show ?thesis using assms(1) by (simp add: packed_def passed_pin)
qed

lemma goa_pinned:
  assumes "pinned c s" and "\<not> next_instance_fits c s"
    and "0 \<le> HorizontalGap c" and "0 \<le> VerticalGap c" and "0 \<le> w" and "0 \<le> h"
  shows "getOffsetAndAdvance c w h s = (None, s)"
proof -
  from assms have "\<not> row_fits c w s" "\<not> next_row_fits c h s" "\<not> next_layer_fits c s"
    by (simp_all add: pinned_def row_fits_def next_row_fits_def next_layer_fits_def)
  with assms(2) have "getOffsetAndAdvance c w h s = (None, pin c s)" by (simp add: goa_full)
  with assms(1) show ?thesis by (simp add: pinned_pin)
qed

lemma goa_packed:
  assumes inv: "packed c s P"
    and cfg: "0 < depth c" "0 \<le> HorizontalGap c" "0 \<le> VerticalGap c"
    and sz: "0 \<le> w" "0 \<le> h"
  shows "case getOffsetAndAdvance c w h s of
           (None, s') \<Rightarrow> packed c s' P
         | (Some off, s') \<Rightarrow>
             (\<forall>r \<in> P. \<not> overlaps r (newTextureInfo c w h tw th off u)) \<and>
             packed c s' (insert (newTextureInfo c w h tw th off u) P)"
proof (cases "currentZ s < depth c")
  case False
  with inv have "pinned c s" "\<not> next_instance_fits c s" by (auto simp add: packed_def)
  with cfg sz have "getOffsetAndAdvance c w h s = (None, s)" by (simp add: goa_pinned)
  with inv show ?thesis by simp
next
  case True
  show ?thesis
  proof (rule goa_cases [where c=c and w=w and h=h and s=s])
    assume "row_fits c w s"
    then have "getOffsetAndAdvance c w h s = place c w h s" by (rule goa_same_row)
    moreover note packed_place [OF inv True cfg(2) sz(1), of h tw th u]
    ultimately show ?thesis by (simp add: place_def)
  next
    let ?t = "s\<lparr>currentX := 0,
      currentY := currentY s + (maxTextureHeightInCurrentRow s + VerticalGap c)\<rparr>"
    assume "\<not> row_fits c w s" "next_row_fits c h s"
    then have "getOffsetAndAdvance c w h s = place c w h ?t" by (rule goa_next_row)
    moreover have "packed c ?t P" using inv True cfg(3) by (rule packed_next_row)
    moreover have "currentZ ?t < depth c" using True by simp
    ultimately show ?thesis
      using packed_place [of c ?t P w h tw th u] cfg(2) sz(1) by (simp add: place_def)
  next
    let ?t = "s\<lparr>currentX := 0, currentY := 0, maxTextureHeightInCurrentRow := 0,
      currentZ := currentZ s + 1\<rparr>"
    assume a: "\<not> row_fits c w s" "\<not> next_row_fits c h s" "next_layer_fits c s"
    then have "getOffsetAndAdvance c w h s = place c w h ?t" by (rule goa_next_layer)
    moreover have "packed c ?t P" using inv a(3) by (rule packed_next_layer)
    moreover have "currentZ ?t < depth c" using a(3) by (simp add: next_layer_fits_def)
    ultimately show ?thesis
      using packed_place [of c ?t P w h tw th u] cfg(2) sz(1) by (simp add: place_def)
  next
    let ?t = "notifyCreateAtlas (s\<lparr>currentX := 0, currentY := 0,
      maxTextureHeightInCurrentRow := 0, currentZ := 0,
      currentInstanceId := currentInstanceId s + 1\<rparr>)"
    assume a: "\<not> row_fits c w s" "\<not> next_row_fits c h s" "\<not> next_layer_fits c s"
      "next_instance_fits c s"
    then have "getOffsetAndAdvance c w h s = place c w h ?t" by (rule goa_next_instance)
    moreover have "packed c ?t P" using inv cfg(1) by (rule packed_next_instance)
    moreover have "currentZ ?t < depth c"
      using cfg(1) by (simp add: notifyCreateAtlas_def emit_def)
    ultimately show ?thesis
      using packed_place [of c ?t P w h tw th u] cfg(2) sz(1) by (simp add: place_def)
  next
    assume a: "\<not> row_fits c w s" "\<not> next_row_fits c h s" "\<not> next_layer_fits c s"
      "\<not> next_instance_fits c s"
    then have "getOffsetAndAdvance c w h s = (None, pin c s)" by (rule goa_full)
    moreover have "packed c (pin c s) P" using inv a(4) by (rule packed_pin)
    ultimately show ?thesis by simp
  qed
qed

lemma packed_store [simp]:
  "packed c (s\<lparr>textureInfos := ti, nextRef := n, events := e\<rparr>) P = packed c s P"
  by (simp add: packed_def passed_def pinned_def next_instance_fits_def)

lemma insert_packed:
  assumes inv: "packed c s P"
    and cfg: "0 < depth c" "0 \<le> HorizontalGap c" "0 \<le> VerticalGap c"
    and sz: "0 \<le> w" "0 \<le> h"
  shows "case insert_texture c w h tw th fmt buf u s of
           (None, s') \<Rightarrow> packed c s' P
         | (Some p, s') \<Rightarrow>
             (\<forall>r \<in> P. \<not> overlaps r (snd p)) \<and> packed c s' (insert (snd p) P)"
proof -
  from inv have none: "discardsForGivenSize s w h = None"
    by (simp add: packed_def discardsForGivenSize_def)
  show ?thesis
  proof (cases "h > height c \<or> w > width c")
    case True
    with none inv show ?thesis by (simp add: insert_oversize)
  next
    case False
    show ?thesis
    proof (cases "getOffsetAndAdvance c w h s")
      case (Pair r s1)
      note g = goa_packed [OF inv cfg sz, of tw th u]
      show ?thesis
      proof (cases r)
        case None
        with Pair have "fst (getOffsetAndAdvance c w h s) = None" by simp
        with none False have "insert_texture c w h tw th fmt buf u s = (None, pin c s)"
          by (simp add: insert_full)
        moreover from Pair None have "s1 = pin c s" by (auto dest: goa_None)
        ultimately show ?thesis using g Pair None by simp
      next
        case (Some off)
        with none False Pair g show ?thesis by (simp add: insert_advance)
      qed
    qed
  qed
qed

lemma placements_packed:
  assumes cfg: "0 < depth c" "0 \<le> HorizontalGap c" "0 \<le> VerticalGap c"
  shows "packed c s P \<Longrightarrow> list_all nonneg_insert ks \<Longrightarrow>
         pairwise_disjoint (placements c ks s) \<and>
         (\<forall>r \<in> P. \<forall>q \<in> set (placements c ks s). \<not> overlaps r q)"
proof (induction ks arbitrary: s P)
  case Nil
  show ?case by simp
next
  case (Cons k ks)
  from Cons.prems(2) obtain w h tw th fmt buf u
    where k: "k = Insert w h tw th fmt buf u" and sz: "0 \<le> w" "0 \<le> h"
    by (cases k) simp_all
  from Cons.prems(2) have rest: "list_all nonneg_insert ks" by simp
  note st = insert_packed [OF Cons.prems(1) cfg sz, of tw th fmt buf u]
  show ?case
  proof (cases "insert_texture c w h tw th fmt buf u s")
    case (Pair r s')
    show ?thesis
    proof (cases r)
      case None
      with st Pair have "packed c s' P" by simp
      from Cons.IH [OF this rest] Pair None k show ?thesis by simp
    next
      case (Some p)
      with st Pair have new: "\<forall>r \<in> P. \<not> overlaps r (snd p)"
        and inv': "packed c s' (insert (snd p) P)" by simp_all
      from Cons.IH [OF inv' rest] new Pair Some k show ?thesis by simp
    qed
  qed
qed

lemma packed_construct: "0 < depth c \<Longrightarrow> packed c (construct c) {}"
  by (simp add: packed_def construct_def notifyCreateAtlas_def emit_def)

text \<open>
  Claim C1: the records returned by the successful inserts of any sequence of insert
  calls made after construction, with no release (and no clear) in between, are pairwise
  non-overlapping: no two of them in the same instance and layer intersect in (x, y)
  extent. The configuration has at least one layer and gaps that are not negative, and the
  images have non-negative width and height. Inserts that fail may occur anywhere in the
  sequence.
\<close>

theorem placements_do_not_overlap:
  assumes "0 < depth c" and "0 \<le> HorizontalGap c" and "0 \<le> VerticalGap c"
    and "list_all nonneg_insert ks"
  shows "pairwise_disjoint (placements c ks (construct c))"
  using placements_packed [OF assms(1-3) packed_construct [OF assms(1)] assms(4)] by simp

theorem placements_do_not_overlap_witness:
  "map (\<lambda>r. (ti_x r, ti_y r, ti_width r, ti_height r))
     (placements page10
        [Insert 5 3 5 3 0 [] 0, Insert 5 3 5 3 0 [] 0, Insert 4 10 4 10 0 [] 0,
         Insert 10 10 10 10 0 [] 0]
        (construct page10)) = [(0, 0, 5, 3), (0, 3, 5, 3), (5, 3, 4, 10)] \<and>
   pairwise_disjoint
     (placements page10
        [Insert 5 3 5 3 0 [] 0, Insert 5 3 5 3 0 [] 0, Insert 4 10 4 10 0 [] 0,
         Insert 10 10 10 10 0 [] 0]
        (construct page10))"
proof -
  have cfg: "0 < depth page10" "0 \<le> HorizontalGap page10" "0 \<le> VerticalGap page10"
    by (simp_all add: page10_def)
  have ks: "list_all nonneg_insert
      [Insert 5 3 5 3 0 [] 0, Insert 5 3 5 3 0 [] 0, Insert 4 10 4 10 0 [] 0,
       Insert 10 10 10 10 0 [] 0]"
    by simp
  have run: "map (\<lambda>r. (ti_x r, ti_y r, ti_width r, ti_height r))
     (placements page10
        [Insert 5 3 5 3 0 [] 0, Insert 5 3 5 3 0 [] 0, Insert 4 10 4 10 0 [] 0,
         Insert 10 10 10 10 0 [] 0]
        (construct page10)) = [(0, 0, 5, 3), (0, 3, 5, 3), (5, 3, 4, 10)]"
    by (simp add: run_defs)
  from run placements_do_not_overlap [OF cfg ks] show ?thesis by (intro conjI)
qed

subsection \<open>The tracked row height\<close>

lemma tallest_nonneg: "0 \<le> tallest i z ps"
  by (induction ps) auto

lemma tallest_snoc:
  "tallest i z (ps @ [p]) =
     (if atlas (snd p) = i \<and> ti_z (snd p) = z then max (tallest i z ps) (ti_height (snd p))
      else tallest i z ps)"
proof (induction ps)
  case Nil
  show ?case by (simp add: max.commute)
next
  case (Cons q qs)
  with tallest_nonneg [of i z qs] show ?case by (auto simp add: max_def)
qed

lemma tallest_empty_layer:
  "(\<And>p. p \<in> set ps \<Longrightarrow> atlas (snd p) \<noteq> i \<or> ti_z (snd p) \<noteq> z) \<Longrightarrow> tallest i z ps = 0"
  by (induction ps) auto

lemma place_tallest:
  assumes "maxTextureHeightInCurrentRow t = tallest (currentInstanceId t) (currentZ t) ps"
  shows "maxTextureHeightInCurrentRow (snd (place c w h t)) =
         tallest (currentInstanceId t) (currentZ t)
           (ps @ [(a, newTextureInfo c w h tw th (offset t) u)])"
  using assms by (simp add: tallest_snoc newTextureInfo_def offset_def)

lemma goa_tallest:
  assumes inv: "packed c s (snd ` set (textureInfos s))"
    and mx: "maxTextureHeightInCurrentRow s = tallest_in_layer s"
    and cfg: "0 < depth c" "0 \<le> HorizontalGap c" "0 \<le> VerticalGap c"
    and sz: "0 \<le> w" "0 \<le> h"
  shows "case getOffsetAndAdvance c w h s of
           (None, s') \<Rightarrow> maxTextureHeightInCurrentRow s' = tallest_in_layer s'
         | (Some off, s') \<Rightarrow>
             maxTextureHeightInCurrentRow s' =
               tallest (currentInstanceId s') (currentZ s')
                 (textureInfos s @ [(a, newTextureInfo c w h tw th off u)])"
proof (cases "currentZ s < depth c")
  case False
  with inv have "pinned c s" "\<not> next_instance_fits c s" by (auto simp add: packed_def)
  with cfg sz have "getOffsetAndAdvance c w h s = (None, s)" by (simp add: goa_pinned)
  with mx show ?thesis by simp
next
  case True
  from inv have old: "\<forall>p \<in> set (textureInfos s). passed s (snd p) \<and> ti_z (snd p) < depth c"
    by (simp add: packed_def)
  show ?thesis
  proof (rule goa_cases [where c=c and w=w and h=h and s=s])
    assume "row_fits c w s"
    then have "getOffsetAndAdvance c w h s = place c w h s" by (rule goa_same_row)
    moreover note place_tallest [of s "textureInfos s" c w h a tw th u]
    ultimately show ?thesis using mx by (simp add: place_def tallest_in_layer_def)
  next
    let ?t = "s\<lparr>currentX := 0,
      currentY := currentY s + (maxTextureHeightInCurrentRow s + VerticalGap c)\<rparr>"
    assume "\<not> row_fits c w s" "next_row_fits c h s"
    then have "getOffsetAndAdvance c w h s = place c w h ?t" by (rule goa_next_row)
    moreover note place_tallest [of ?t "textureInfos s" c w h a tw th u]
    ultimately show ?thesis using mx by (simp add: place_def tallest_in_layer_def)
  next
    let ?t = "s\<lparr>currentX := 0, currentY := 0, maxTextureHeightInCurrentRow := 0,
      currentZ := currentZ s + 1\<rparr>"
    assume a: "\<not> row_fits c w s" "\<not> next_row_fits c h s" "next_layer_fits c s"
    then have "getOffsetAndAdvance c w h s = place c w h ?t" by (rule goa_next_layer)
    moreover have "tallest (currentInstanceId s) (currentZ s + 1) (textureInfos s) = 0"
      using old by (intro tallest_empty_layer) (fastforce simp add: passed_def)
    moreover note place_tallest [of ?t "textureInfos s" c w h a tw th u]
    ultimately show ?thesis by (simp add: place_def)
  next
    let ?t = "notifyCreateAtlas (s\<lparr>currentX := 0, currentY := 0,
      maxTextureHeightInCurrentRow := 0, currentZ := 0,
      currentInstanceId := currentInstanceId s + 1\<rparr>)"
    assume a: "\<not> row_fits c w s" "\<not> next_row_fits c h s" "\<not> next_layer_fits c s"
      "next_instance_fits c s"
    then have "getOffsetAndAdvance c w h s = place c w h ?t" by (rule goa_next_instance)
    moreover have "tallest (currentInstanceId s + 1) 0 (textureInfos s) = 0"
      using old by (intro tallest_empty_layer) (fastforce simp add: passed_def)
    moreover note place_tallest [of ?t "textureInfos s" c w h a tw th u]
    ultimately show ?thesis by (simp add: place_def notifyCreateAtlas_def emit_def)
  next
    assume a: "\<not> row_fits c w s" "\<not> next_row_fits c h s" "\<not> next_layer_fits c s"
      "\<not> next_instance_fits c s"
    then have "getOffsetAndAdvance c w h s = (None, pin c s)" by (rule goa_full)
    moreover have "tallest (currentInstanceId s) (depth c) (textureInfos s) = 0"
      using old by (intro tallest_empty_layer) fastforce
    ultimately show ?thesis by (simp add: pin_def tallest_in_layer_def)
  qed
qed

lemma tracked_insert:
  assumes inv: "tracked c s"
    and cfg: "0 < depth c" "0 \<le> HorizontalGap c" "0 \<le> VerticalGap c"
    and sz: "0 \<le> w" "0 \<le> h"
  shows "tracked c (snd (insert_texture c w h tw th fmt buf u s))"
proof -
  from inv have pk: "packed c s (snd ` set (textureInfos s))"
    and mx: "maxTextureHeightInCurrentRow s = tallest_in_layer s"
    by (simp_all add: tracked_def)
  from pk have none: "discardsForGivenSize s w h = None"
    by (simp add: packed_def discardsForGivenSize_def)
  note ip = insert_packed [OF pk cfg sz, of tw th fmt buf u]
  show ?thesis
  proof (cases "h > height c \<or> w > width c")
    case True
    with none inv show ?thesis by (simp add: insert_oversize)
  next
    case False
    show ?thesis
    proof (cases "getOffsetAndAdvance c w h s")
      case (Pair r s1)
      note g = goa_tallest [OF pk mx cfg sz, of "nextRef s" tw th u]
      have ti: "textureInfos s1 = textureInfos s" using goa_frame(2) [of c w h s] Pair by simp
      show ?thesis
      proof (cases r)
        case None
        with Pair have "fst (getOffsetAndAdvance c w h s) = None" by simp
        with none False have i: "insert_texture c w h tw th fmt buf u s = (None, pin c s)"
          by (simp add: insert_full)
        moreover from Pair None have "s1 = pin c s" by (auto dest: goa_None)
        ultimately show ?thesis using g ip Pair None ti by (simp add: tracked_def)
      next
        case (Some off)
        with none False Pair g ip show ?thesis
          by (simp add: insert_advance tracked_def tallest_in_layer_def)
      qed
    qed
  qed
qed

lemma tracked_run:
  assumes cfg: "0 < depth c" "0 \<le> HorizontalGap c" "0 \<le> VerticalGap c"
  shows "tracked c s \<Longrightarrow> list_all nonneg_insert ks \<Longrightarrow> tracked c (run c ks s)"
proof (induction ks arbitrary: s)
  case Nil
  then show ?case by simp
next
  case (Cons k ks)
  from Cons.prems(2) obtain w h tw th fmt buf u
    where k: "k = Insert w h tw th fmt buf u" and sz: "0 \<le> w" "0 \<le> h"
    by (cases k) simp_all
  from Cons.prems(2) have rest: "list_all nonneg_insert ks" by simp
  from tracked_insert [OF Cons.prems(1) cfg sz, of tw th fmt buf u]
  have "tracked c (step c k s)" by (simp add: k)
  from Cons.IH [OF this rest] show ?case by simp
qed

lemma tracked_construct: "0 < depth c \<Longrightarrow> tracked c (construct c)"
  using packed_construct [of c]
  by (simp add: tracked_def tallest_in_layer_def construct_def notifyCreateAtlas_def emit_def)

lemma goa_tracked_height:
  "maxTextureHeightInCurrentRow (snd (getOffsetAndAdvance c w h t)) =
     (if row_fits c w t \<or> next_row_fits c h t then max (maxTextureHeightInCurrentRow t) h
      else if fst (getOffsetAndAdvance c w h t) = None then 0 else max 0 h)"
  by (rule goa_cases [where c=c and w=w and h=h and s=t])
     (simp_all add: goa_same_row goa_next_row goa_next_layer goa_next_instance goa_full pin_def
        notifyCreateAtlas_def emit_def)

text \<open>
  Claim C10: the tracked maximum row height is reset only by a wrap to a new layer, never
  by a wrap to a new row. After any sequence of inserts (non-negative sizes, at least one
  layer, gaps not negative) from construction, the tracked height is the height of the
  tallest placement in the cursor's layer, that is, of all placements made in that layer
  since the last layer wrap; a request that wraps to the next row of the same layer is
  placed at x = 0 and y = currentY + that height + the vertical gap, and the tracked height
  becomes the larger of that height and the request's. In any state at all, an advance
  that stays in the layer (same row or next row) keeps the larger of the tracked height
  and the request's, and an advance that leaves the layer starts again from 0.
\<close>

theorem row_wrap_advances_by_layer_max:
  assumes "0 < depth c" and "0 \<le> HorizontalGap c" and "0 \<le> VerticalGap c"
    and "list_all nonneg_insert ks"
    and "s = run c ks (construct c)"
  shows "maxTextureHeightInCurrentRow s = tallest_in_layer s \<and>
         (\<not> row_fits c w s \<and> next_row_fits c h s \<longrightarrow>
            getOffsetAndAdvance c w h s =
              (Some \<lparr>off_i = currentInstanceId s, off_x = 0,
                      off_y = currentY s + (tallest_in_layer s + VerticalGap c),
                      off_z = currentZ s\<rparr>,
               s\<lparr>currentX := w + HorizontalGap c,
                 currentY := currentY s + (tallest_in_layer s + VerticalGap c),
                 maxTextureHeightInCurrentRow := max (tallest_in_layer s) h\<rparr>)) \<and>
         (\<forall>t. maxTextureHeightInCurrentRow (snd (getOffsetAndAdvance c w h t)) =
            (if row_fits c w t \<or> next_row_fits c h t
             then max (maxTextureHeightInCurrentRow t) h
             else if fst (getOffsetAndAdvance c w h t) = None then 0 else max 0 h))"
proof -
  from tracked_run [OF assms(1-3) tracked_construct [OF assms(1)] assms(4)] assms(5)
  have mx: "maxTextureHeightInCurrentRow s = tallest_in_layer s"
    by (simp add: tracked_def)
  have "getOffsetAndAdvance c w h s =
      (Some \<lparr>off_i = currentInstanceId s, off_x = 0,
              off_y = currentY s + (tallest_in_layer s + VerticalGap c),
              off_z = currentZ s\<rparr>,
       s\<lparr>currentX := w + HorizontalGap c,
         currentY := currentY s + (tallest_in_layer s + VerticalGap c),
         maxTextureHeightInCurrentRow := max (tallest_in_layer s) h\<rparr>)"
    if "\<not> row_fits c w s" "next_row_fits c h s"
    using goa_next_row [OF that] mx by (simp add: place_def offset_def)
  with mx goa_tracked_height show ?thesis by blast
qed

theorem row_wrap_advances_by_layer_max_witness:
  "map (\<lambda>r. (ti_x r, ti_y r, ti_width r, ti_height r))
     (map snd (textureInfos
        (run page10 [Insert 5 4 5 4 0 [] 0, Insert 6 1 6 1 0 [] 0] (construct page10)))) =
     [(0, 0, 5, 4), (0, 4, 6, 1)] \<and>
   tallest_in_layer
     (run page10 [Insert 5 4 5 4 0 [] 0, Insert 6 1 6 1 0 [] 0] (construct page10)) = 4 \<and>
   fst (getOffsetAndAdvance page10 6 1
     (run page10 [Insert 5 4 5 4 0 [] 0, Insert 6 1 6 1 0 [] 0] (construct page10))) =
     Some \<lparr>off_i = 0, off_x = 0, off_y = 8, off_z = 0\<rparr> \<and>
   maxTextureHeightInCurrentRow (snd (getOffsetAndAdvance page10 6 1
     (run page10 [Insert 5 4 5 4 0 [] 0, Insert 6 1 6 1 0 [] 0] (construct page10)))) = 4"
proof -
  let ?ks = "[Insert 5 4 5 4 0 [] 0, Insert 6 1 6 1 0 [] 0]"
  let ?s = "run page10 ?ks (construct page10)"
  have cfg: "0 < depth page10" "0 \<le> HorizontalGap page10" "0 \<le> VerticalGap page10"
    by (simp_all add: page10_def)
  have ks: "list_all nonneg_insert ?ks" by simp
  have recs: "map (\<lambda>r. (ti_x r, ti_y r, ti_width r, ti_height r))
      (map snd (textureInfos ?s)) = [(0, 0, 5, 4), (0, 4, 6, 1)]"
    by (simp add: run_defs)
  have cur: "currentInstanceId ?s = 0" "currentZ ?s = 0" "currentY ?s = 4"
    "VerticalGap page10 = 0"
    by (simp_all add: run_defs)
  have tl: "tallest_in_layer ?s = 4"
    by (simp add: run_defs tallest_in_layer_def)
  have wrap: "\<not> row_fits page10 6 ?s \<and> next_row_fits page10 1 ?s"
    by (simp add: run_defs row_fits_def next_row_fits_def)
  note inst = row_wrap_advances_by_layer_max [OF cfg ks refl, of 6 1]
  from inst wrap have "getOffsetAndAdvance page10 6 1 ?s =
      (Some \<lparr>off_i = currentInstanceId ?s, off_x = 0,
              off_y = currentY ?s + (tallest_in_layer ?s + VerticalGap page10),
              off_z = currentZ ?s\<rparr>,
       ?s\<lparr>currentX := 6 + HorizontalGap page10,
          currentY := currentY ?s + (tallest_in_layer ?s + VerticalGap page10),
          maxTextureHeightInCurrentRow := max (tallest_in_layer ?s) 1\<rparr>)"
    by blast
  then have "fst (getOffsetAndAdvance page10 6 1 ?s) =
      Some \<lparr>off_i = 0, off_x = 0, off_y = 8, off_z = 0\<rparr>"
    and "maxTextureHeightInCurrentRow (snd (getOffsetAndAdvance page10 6 1 ?s)) = 4"
    unfolding cur tl by simp_all
  with recs tl show ?thesis by (intro conjI)
qed

subsection \<open>Teardown after clear\<close>

text \<open>
  On a run in which \<^verbatim>\<open>clear()\<close> is never called the ids created are exactly those
  from the base to the current one, so the destructor destroys every instance created,
  each once.
\<close>

lemma destroyed_append [simp]: "destroyed (es @ fs) = destroyed es @ destroyed fs"
  by (induction es rule: destroyed.induct) simp_all

lemma goa_events:
  "events (snd (getOffsetAndAdvance c w h s)) =
     (if \<not> row_fits c w s \<and> \<not> next_row_fits c h s \<and> \<not> next_layer_fits c s \<and>
         next_instance_fits c s
      then events s @ [CreateAtlas (currentInstanceId s + 1)] else events s)"
  by (rule goa_cases [where c=c and w=w and h=h and s=s])
     (simp_all add: goa_same_row goa_next_row goa_next_layer goa_next_instance goa_full pin_def
        notifyCreateAtlas_def emit_def)

lemma insert_creates_next:
  "created (events (snd (insert_texture c w h tw th fmt buf u s))) = created (events s) \<and>
   currentInstanceId (snd (insert_texture c w h tw th fmt buf u s)) = currentInstanceId s \<or>
   created (events (snd (insert_texture c w h tw th fmt buf u s))) =
     created (events s) @ [currentInstanceId s + 1] \<and>
   currentInstanceId (snd (insert_texture c w h tw th fmt buf u s)) = currentInstanceId s + 1"
  and insert_destroys_nothing:
  "destroyed (events (snd (insert_texture c w h tw th fmt buf u s))) = destroyed (events s)"
proof -
  have "(created (events (snd (insert_texture c w h tw th fmt buf u s))) = created (events s) \<and>
     currentInstanceId (snd (insert_texture c w h tw th fmt buf u s)) = currentInstanceId s \<or>
     created (events (snd (insert_texture c w h tw th fmt buf u s))) =
       created (events s) @ [currentInstanceId s + 1] \<and>
     currentInstanceId (snd (insert_texture c w h tw th fmt buf u s)) = currentInstanceId s + 1) \<and>
    destroyed (events (snd (insert_texture c w h tw th fmt buf u s))) = destroyed (events s)"
  proof (cases "discardsForGivenSize s w h")
    case (Some ds)
    then show ?thesis by (simp add: insert_reuse)
  next
    case None
    show ?thesis
    proof (cases "h > height c \<or> w > width c")
      case True
      with None show ?thesis by (simp add: insert_oversize)
    next
      case False
      show ?thesis
      proof (cases "getOffsetAndAdvance c w h s")
        case (Pair r s1)
        have ev: "events s1 = events s \<and> currentInstanceId s1 = currentInstanceId s \<or>
            events s1 = events s @ [CreateAtlas (currentInstanceId s + 1)] \<and>
            currentInstanceId s1 = currentInstanceId s + 1"
          using goa_events [of c w h s] goa_instance_id [of c w h s] Pair
          by (auto split: if_splits)
        show ?thesis
        proof (cases r)
          case None': None
          with Pair have "fst (getOffsetAndAdvance c w h s) = None" by simp
          with None False show ?thesis by (simp add: insert_full pin_def)
        next
          case (Some off)
          with None False Pair ev show ?thesis by (auto simp add: insert_advance)
        qed
      qed
    qed
  qed
  then show
    "created (events (snd (insert_texture c w h tw th fmt buf u s))) = created (events s) \<and>
     currentInstanceId (snd (insert_texture c w h tw th fmt buf u s)) = currentInstanceId s \<or>
     created (events (snd (insert_texture c w h tw th fmt buf u s))) =
       created (events s) @ [currentInstanceId s + 1] \<and>
     currentInstanceId (snd (insert_texture c w h tw th fmt buf u s)) = currentInstanceId s + 1"
    and "destroyed (events (snd (insert_texture c w h tw th fmt buf u s))) = destroyed (events s)"
    by simp_all
qed

lemma created_upto_step:
  assumes "instanceBaseId c \<le> currentInstanceId s"
    and "created (events s) = [instanceBaseId c .. currentInstanceId s]"
    and "destroyed (events s) = []" and "no_clear k"
  shows "instanceBaseId c \<le> currentInstanceId (step c k s) \<and>
         created (events (step c k s)) = [instanceBaseId c .. currentInstanceId (step c k s)] \<and>
         destroyed (events (step c k s)) = []"
proof (cases k)
  case (Insert w h tw th fmt buf u)
  from assms(1) have "[instanceBaseId c .. currentInstanceId s + 1] =
      [instanceBaseId c .. currentInstanceId s] @ [currentInstanceId s + 1]"
    by (simp add: upto_rec2)
  with assms(1-3) Insert insert_creates_next [of c w h tw th fmt buf u s]
    insert_destroys_nothing [of c w h tw th fmt buf u s]
  show ?thesis by auto
next
  case (Release a)
  with assms show ?thesis by simp
next
  case Clear
  with assms(4) show ?thesis by simp
qed

lemma created_upto_run:
  "instanceBaseId c \<le> currentInstanceId s \<Longrightarrow>
   created (events s) = [instanceBaseId c .. currentInstanceId s] \<Longrightarrow>
   destroyed (events s) = [] \<Longrightarrow> list_all no_clear ks \<Longrightarrow>
   created (events (run c ks s)) = [instanceBaseId c .. currentInstanceId (run c ks s)] \<and>
   destroyed (events (run c ks s)) = []"
proof (induction ks arbitrary: s)
  case Nil
  then show ?case by simp
next
  case (Cons k ks)
  from Cons.prems have "no_clear k" "list_all no_clear ks" by simp_all
  with Cons.prems created_upto_step [of c s k] Cons.IH [of "step c k s"] show ?case by simp
qed

lemma teardown_without_clear:
  assumes "list_all no_clear ks"
  shows "destroyed (events (destruct c (run c ks (construct c)))) =
         created (events (destruct c (run c ks (construct c)))) \<and>
         distinct (created (events (destruct c (run c ks (construct c)))))"
proof -
  let ?s = "run c ks (construct c)"
  have "created (events ?s) = [instanceBaseId c .. currentInstanceId ?s] \<and>
        destroyed (events ?s) = []"
    using assms
    by (intro created_upto_run) (simp_all add: construct_def notifyCreateAtlas_def emit_def)
  moreover have "destroyed (map DestroyAtlas xs) = xs" "created (map DestroyAtlas xs) = []"
    for xs
    by (induction xs) simp_all
  ultimately show ?thesis by (simp add: destruct_def)
qed

text \<open>
  Claim C3: the destructor destroys every instance ever created, exactly once, also after
  a \<^verbatim>\<open>clear()\<close>. The destructor walks from the base id to the current id, and
  \<^verbatim>\<open>clear()\<close> sets the current id back to the base without destroying anything. With
  two instances allowed, a 10 by 10 image on the 10 by 10 page goes to the second instance
  (ids 0 and 1 are created); after \<^verbatim>\<open>clear()\<close> the destructor destroys id 0 only.
\<close>

theorem clear_forgets_created_instances:
  "created (events (destruct (page10\<lparr>maxInstances := 2\<rparr>)
      (clear (page10\<lparr>maxInstances := 2\<rparr>)
        (snd (ins (page10\<lparr>maxInstances := 2\<rparr>) 10 10
           (construct (page10\<lparr>maxInstances := 2\<rparr>))))))) = [0, 1] \<and>
   destroyed (events (destruct (page10\<lparr>maxInstances := 2\<rparr>)
      (clear (page10\<lparr>maxInstances := 2\<rparr>)
        (snd (ins (page10\<lparr>maxInstances := 2\<rparr>) 10 10
           (construct (page10\<lparr>maxInstances := 2\<rparr>))))))) = [0]"
  by (simp add: run_defs)

end
